theory Spec2Isabelle
  imports Complex_Main
begin

section \<open>The transport solver form: \<open>TransportApp.solve_transport\<close>\<close>

text \<open>
  The development embeds \<open>solve_transport\<close> and \<open>update_stats\<close> of \<open>logistics.py\<close>,
  and of \<open>initUI\<close> and \<open>create_tables\<close> what they do to the widgets that
  \<open>solve_transport\<close> reads and writes.
  Python floats are idealised as \<^typ>\<open>real\<close>: rounding, infinities and NaN are not
  modelled, so \<open>sum\<close> and \<open>+=\<close> are exact sums and \<open>0.001\<close> is the number \<open>1/1000\<close>.
  An item that is created from \<open>f"{v:.2f}"\<close> records the number \<open>v\<close> that is formatted;
  its text is that number rounded to two decimals, \<open>two_decimals v\<close>. The French texts of the dialogs and of the status bar
  are constructors that carry the interpolated values. The Gurobi solver is a parameter: a
  function from the model that was built to what \<open>optimize\<close> leaves behind. The two spin
  boxes range over \<open>1\<close> to \<open>10\<close>; the properties below ask only that both are positive.
\<close>

subsection \<open>Exceptions and Python containers\<close>

datatype exn = ValueError | AttributeError | IndexError | KeyError | GurobiError

text \<open>\<open>xs[i]\<close> for a non-negative index, and \<open>d[k]\<close>.\<close>

definition getitem :: "'a list \<Rightarrow> nat \<Rightarrow> exn + 'a" where
  "getitem xs i = (if i < length xs then Inr (xs ! i) else Inl IndexError)"

definition getkey :: "('k \<rightharpoonup> 'v) \<Rightarrow> 'k \<Rightarrow> exn + 'v" where
  "getkey d k = (case d k of None \<Rightarrow> Inl KeyError | Some v \<Rightarrow> Inr v)"

text \<open>
  A \<open>for\<close> loop over a list whose body mutates a state and may raise. The state reached
  when the exception is raised is kept: the \<open>except\<close> clause sees the widgets as the
  interrupted loop left them.
\<close>

fun for_each :: "'i list \<Rightarrow> ('i \<Rightarrow> 's \<Rightarrow> exn option \<times> 's) \<Rightarrow> 's \<Rightarrow> exn option \<times> 's" where
  "for_each [] body s = (None, s)"
| "for_each (i # is) body s =
     (case body i s of
        (Some e, s') \<Rightarrow> (Some e, s')
      | (None, s') \<Rightarrow> for_each is body s')"

text \<open>A list comprehension whose element expression may raise.\<close>

fun comprehension :: "('i \<Rightarrow> exn + 'a) \<Rightarrow> 'i list \<Rightarrow> exn + 'a list" where
  "comprehension f [] = Inr []"
| "comprehension f (i # is) =
     (case f i of
        Inl e \<Rightarrow> Inl e
      | Inr v \<Rightarrow> (case comprehension f is of Inl e \<Rightarrow> Inl e | Inr vs \<Rightarrow> Inr (v # vs)))"

text \<open>\<open>sum(xs)\<close> on a list of floats: the accumulation from \<open>0\<close>, left to right.\<close>

definition py_sum :: "real list \<Rightarrow> real" where
  "py_sum xs = foldl (+) 0 xs"

text \<open>\<open>str(k)\<close> for a non-negative integer, used by the f-strings that name variables.\<close>

definition digit :: "nat \<Rightarrow> char" where
  "digit d = char_of (48 + d)"

fun str_nat :: "nat \<Rightarrow> string" where
  "str_nat k = (if k < 10 then [digit k] else str_nat (k div 10) @ [digit (k mod 10)])"

declare str_nat.simps [simp del]

subsection \<open>The input tables\<close>

text \<open>
  The text of an input cell is modelled by what \<open>float\<close> makes of it: a number, or a
  \<open>ValueError\<close>. \<open>QTableWidget.item\<close> returns \<open>None\<close> outside the table, and
  \<open>.text()\<close> on it raises \<open>AttributeError\<close>; this happens when a spin box was raised
  after the tables were generated.
\<close>

datatype entry = Number real | Malformed

definition item :: "entry list list \<Rightarrow> nat \<Rightarrow> nat \<Rightarrow> entry option" where
  "item tbl i j =
     (if i < length tbl \<and> j < length (tbl ! i) then Some (tbl ! i ! j) else None)"

definition float_text :: "entry option \<Rightarrow> exn + real" where
  "float_text c =
     (case c of
        None \<Rightarrow> Inl AttributeError
      | Some Malformed \<Rightarrow> Inl ValueError
      | Some (Number v) \<Rightarrow> Inr v)"

subsection \<open>The Gurobi model\<close>

record var =
  lb :: real
  obj :: real
  VarName :: string

datatype relation = LE | GE

text \<open>A linear expression is the list of its terms: coefficient and index of the variable.\<close>

type_synonym linexpr = "(real \<times> nat) list"

record constr =
  lhs :: linexpr
  rel :: relation
  rhs :: real
  ConstrName :: string

datatype sense = MINIMIZE | MAXIMIZE

record model =
  ModelName :: string
  OutputFlag :: int
  vars :: "var list"
  constrs :: "constr list"
  modelSense :: sense

definition Model :: "string \<Rightarrow> model" where
  "Model nm = \<lparr>ModelName = nm, OutputFlag = 1, vars = [], constrs = [], modelSense = MINIMIZE\<rparr>"

text \<open>\<open>addVar\<close> returns the new variable, which is identified by its position in the model.\<close>

definition addVar :: "real \<Rightarrow> real \<Rightarrow> string \<Rightarrow> model \<Rightarrow> nat \<times> model" where
  "addVar l c nm mdl =
     (length (vars mdl), mdl\<lparr>vars := vars mdl @ [\<lparr>lb = l, obj = c, VarName = nm\<rparr>]\<rparr>)"

text \<open>
  \<open>sum(x[k] for k in keys)\<close>: each lookup may raise \<open>KeyError\<close>. Over no key at all the
  Python sum is the integer \<open>0\<close>, the comparison with a float is then a \<open>bool\<close>, and
  \<open>addConstr\<close> rejects it; the empty expression stands for that integer.
\<close>

fun sum_vars :: "('k \<rightharpoonup> nat) \<Rightarrow> 'k list \<Rightarrow> exn + linexpr" where
  "sum_vars x [] = Inr []"
| "sum_vars x (k # ks) =
     (case getkey x k of
        Inl e \<Rightarrow> Inl e
      | Inr v \<Rightarrow> (case sum_vars x ks of Inl e \<Rightarrow> Inl e | Inr t \<Rightarrow> Inr ((1, v) # t)))"

definition addConstr :: "linexpr \<Rightarrow> relation \<Rightarrow> real \<Rightarrow> string \<Rightarrow> model \<Rightarrow> exn option \<times> model" where
  "addConstr e r b nm mdl =
     (if e = [] then (Some GurobiError, mdl)
      else (None, mdl\<lparr>constrs := constrs mdl @ [\<lparr>lhs = e, rel = r, rhs = b, ConstrName = nm\<rparr>]\<rparr>))"

type_synonym xdict = "nat \<times> nat \<rightharpoonup> nat"

text \<open>The body of the two nested loops that create the variables.\<close>

definition add_var_step ::
  "real list list \<Rightarrow> nat \<Rightarrow> nat \<Rightarrow> model \<times> xdict \<Rightarrow> exn option \<times> (model \<times> xdict)" where
  "add_var_step costs i j = (\<lambda>(mdl, x).
     case getitem costs i of
       Inl e \<Rightarrow> (Some e, (mdl, x))
     | Inr row \<Rightarrow>
         (case getitem row j of
            Inl e \<Rightarrow> (Some e, (mdl, x))
          | Inr c \<Rightarrow>
              (let (v, mdl') =
                     addVar 0 c (''x_'' @ str_nat (i + 1) @ ''_'' @ str_nat (j + 1)) mdl
               in (None, (mdl', x((i, j) \<mapsto> v))))))"

text \<open>The bodies of the loops that add the supply and the demand constraints.\<close>

definition supply_step :: "xdict \<Rightarrow> real list \<Rightarrow> nat \<Rightarrow> nat \<Rightarrow> model \<Rightarrow> exn option \<times> model" where
  "supply_step x supply n i mdl =
     (case sum_vars x (map (\<lambda>j. (i, j)) [0..<n]) of
        Inl e \<Rightarrow> (Some e, mdl)
      | Inr e \<Rightarrow>
          (case getitem supply i of
             Inl ex \<Rightarrow> (Some ex, mdl)
           | Inr b \<Rightarrow> addConstr e LE b (''supply_'' @ str_nat i) mdl))"

definition demand_step :: "xdict \<Rightarrow> real list \<Rightarrow> nat \<Rightarrow> nat \<Rightarrow> model \<Rightarrow> exn option \<times> model" where
  "demand_step x demand m j mdl =
     (case sum_vars x (map (\<lambda>i. (i, j)) [0..<m]) of
        Inl e \<Rightarrow> (Some e, mdl)
      | Inr e \<Rightarrow>
          (case getitem demand j of
             Inl ex \<Rightarrow> (Some ex, mdl)
           | Inr b \<Rightarrow> addConstr e GE b (''demand_'' @ str_nat j) mdl))"

text \<open>
  Lines 496 to 512: the model is a local object, so an exception leaves nothing of it behind.
\<close>

definition build_model ::
  "nat \<Rightarrow> nat \<Rightarrow> real list \<Rightarrow> real list \<Rightarrow> real list list \<Rightarrow> exn + model \<times> xdict" where
  "build_model m n supply demand costs =
     (let mdl0 = (Model ''transport'')\<lparr>OutputFlag := 0\<rparr> in
      case for_each [0..<m] (\<lambda>i. for_each [0..<n] (add_var_step costs i)) (mdl0, Map.empty) of
        (Some e, _) \<Rightarrow> Inl e
      | (None, (mdl1, x)) \<Rightarrow>
          (let mdl2 = mdl1\<lparr>modelSense := MINIMIZE\<rparr> in
           case for_each [0..<m] (supply_step x supply n) mdl2 of
             (Some e, _) \<Rightarrow> Inl e
           | (None, mdl3) \<Rightarrow>
               (case for_each [0..<n] (demand_step x demand m) mdl3 of
                  (Some e, _) \<Rightarrow> Inl e
                | (None, mdl4) \<Rightarrow> Inr (mdl4, x))))"

subsection \<open>What the solver leaves behind\<close>

text \<open>
  \<open>X k\<close> is the attribute \<open>.x\<close> of the variable created \<open>k\<close>-th. \<open>MIPGap\<close> and
  \<open>IterCount\<close> are \<open>None\<close> when \<open>hasattr\<close> finds no such attribute.
\<close>

record outcome =
  status :: int
  objVal :: real
  X :: "nat \<Rightarrow> real"
  Runtime :: real
  MIPGap :: "real option"
  IterCount :: "real option"

text \<open>The value of \<open>GRB.OPTIMAL\<close> in \<open>gurobipy\<close>.\<close>

definition GRB_OPTIMAL :: int where
  "GRB_OPTIMAL = 2"

subsection \<open>The widgets\<close>

datatype background = Plain | Flow_blue | Total_grey | Cost_orange | Grand_green

text \<open>
  An item of the result table. \<open>Num v bg\<close> is \<open>QTableWidgetItem(f"{v:.2f}")\<close> on the
  background \<open>bg\<close>: it records the number that is formatted, and what it shows is
  \<open>two_decimals v\<close>. \<open>Blank\<close> is the item with the empty text.
\<close>

datatype cell = Num real background | Blank

datatype hlabel = E nat | Offre | Cout_usine

datatype vlabel = U nat | Demande | Cout_total

record results_table =
  rowCount :: nat
  columnCount :: nat
  horizontalHeader :: "hlabel list"
  verticalHeader :: "vlabel list"
  items :: "nat \<times> nat \<Rightarrow> cell option"

text \<open>Shrinking a table drops the items outside; \<open>setItem\<close> outside the table does nothing.\<close>

definition setRowCount :: "nat \<Rightarrow> results_table \<Rightarrow> results_table" where
  "setRowCount r t =
     t\<lparr>rowCount := r, items := (\<lambda>(i, j). if i < r then items t (i, j) else None)\<rparr>"

definition setColumnCount :: "nat \<Rightarrow> results_table \<Rightarrow> results_table" where
  "setColumnCount c t =
     t\<lparr>columnCount := c, items := (\<lambda>(i, j). if j < c then items t (i, j) else None)\<rparr>"

definition setItem :: "nat \<Rightarrow> nat \<Rightarrow> cell \<Rightarrow> results_table \<Rightarrow> results_table" where
  "setItem i j c t =
     (if i < rowCount t \<and> j < columnCount t then t\<lparr>items := (items t)((i, j) \<mapsto> c)\<rparr> else t)"

text \<open>The status bar texts that the form can show.\<close>

datatype status_text =
    Pret
  | Tableaux_crees nat nat
  | Resolution_en_cours
  | Solution_optimale real
  | Aucune_solution
  | Erreur_resolution
  | Fichier_exporte string
  | Reinitialisee

text \<open>
  The solution summary: total cost, \<open>m * n\<close>, \<open>m + n\<close>, run time and gap. The statistics
  tab: \<open>m\<close>, \<open>n\<close>, \<open>m * n\<close>, cost, run time, iteration count or \<open>N/A\<close>, status,
  \<open>numVars\<close> and \<open>numConstrs\<close>.
\<close>

datatype info = Solution_info real nat nat real real

datatype stats = Stats nat nat nat real real "real option" int nat nat

record ui =
  spin_usines :: nat
  spin_entrepots :: nat
  table_offres :: "entry list list"
  table_demandes :: "entry list list"
  table_costs :: "entry list list"
  btn_solve :: bool
  btn_export :: bool
  status_label :: status_text
  solution_info :: "info option"
  table_results :: results_table
  stats_text :: "stats option"

text \<open>What the user is shown in a dialog, and the call of the solver, in the order they happen.\<close>

datatype dialog =
    Question_desequilibre real real
  | Warning_aucune_solution int
  | Critical_erreur exn

datatype event = Dialog dialog | Optimize model

datatype button = Yes | No

subsection \<open>The result formatter\<close>

text \<open>The body of the inner loop of lines 546 to 560, on the two accumulators and the table.\<close>

definition flow_step ::
  "xdict \<Rightarrow> outcome \<Rightarrow> real list list \<Rightarrow> nat \<Rightarrow> nat \<Rightarrow>
     real \<times> real \<times> results_table \<Rightarrow> exn option \<times> (real \<times> real \<times> results_table)" where
  "flow_step x out costs i j = (\<lambda>(row_cost, row_flow, t).
     case getkey x (i, j) of
       Inl e \<Rightarrow> (Some e, (row_cost, row_flow, t))
     | Inr v \<Rightarrow>
         (let val = X out v in
          case getitem costs i of
            Inl e \<Rightarrow> (Some e, (row_cost, row_flow, t))
          | Inr row \<Rightarrow>
              (case getitem row j of
                 Inl e \<Rightarrow> (Some e, (row_cost, row_flow, t))
               | Inr c \<Rightarrow>
                   (let cost = c * val
                    in (None, (row_cost + cost, row_flow + val,
                          setItem i j (Num val (if val > 0 then Flow_blue else Plain)) t))))))"

text \<open>The body of the loop over the sources, lines 543 to 574.\<close>

definition row_step ::
  "xdict \<Rightarrow> outcome \<Rightarrow> real list list \<Rightarrow> nat \<Rightarrow> nat \<Rightarrow> results_table \<Rightarrow>
     exn option \<times> results_table" where
  "row_step x out costs n i t =
     (case for_each [0..<n] (flow_step x out costs i) (0, 0, t) of
        (Some e, (row_cost, row_flow, t')) \<Rightarrow> (Some e, t')
      | (None, (row_cost, row_flow, t')) \<Rightarrow>
          (None, setItem i (n + 1) (Num row_cost Cost_orange)
                   (setItem i n (Num row_flow Total_grey) t')))"

text \<open>The body of the loop of the demand line, lines 577 to 583.\<close>

definition demand_row_step ::
  "xdict \<Rightarrow> outcome \<Rightarrow> nat \<Rightarrow> nat \<Rightarrow> results_table \<Rightarrow> exn option \<times> results_table" where
  "demand_row_step x out m j t =
     (case comprehension
             (\<lambda>i. case getkey x (i, j) of Inl e \<Rightarrow> Inl e | Inr v \<Rightarrow> Inr (X out v)) [0..<m] of
        Inl e \<Rightarrow> (Some e, t)
      | Inr vals \<Rightarrow> (None, setItem m j (Num (py_sum vals) Total_grey) t))"

text \<open>
  Lines 533 to 598: the whole result table. Every number reaches its item through
  \<open>f"{v:.2f}"\<close>, which is what \<open>Num\<close> stands for; \<open>text_at\<close> gives the text.
\<close>

definition fill_results ::
  "nat \<Rightarrow> nat \<Rightarrow> xdict \<Rightarrow> outcome \<Rightarrow> real list list \<Rightarrow> real \<Rightarrow> results_table \<Rightarrow>
     exn option \<times> results_table" where
  "fill_results m n x out costs total_cost t0 =
     (let t1 = setColumnCount (n + 2) (setRowCount (m + 2) t0);
          t2 = t1\<lparr>horizontalHeader := map (\<lambda>j. E (j + 1)) [0..<n] @ [Offre, Cout_usine],
                  verticalHeader := map (\<lambda>i. U (i + 1)) [0..<m] @ [Demande, Cout_total]\<rparr>
      in case for_each [0..<m] (row_step x out costs n) t2 of
           (Some e, t) \<Rightarrow> (Some e, t)
         | (None, t3) \<Rightarrow>
             (case for_each [0..<n] (demand_row_step x out m) t3 of
                (Some e, t) \<Rightarrow> (Some e, t)
              | (None, t4) \<Rightarrow>
                  (let t5 = setItem m (n + 1) Blank (setItem m n Blank t4);
                       t6 = fold (\<lambda>j. setItem (m + 1) j
                                   (if j = n + 1 then Num total_cost Grand_green else Blank))
                              [0..<n + 2] t5
                   in (None, t6))))"

definition update_stats :: "model \<Rightarrow> outcome \<Rightarrow> nat \<Rightarrow> nat \<Rightarrow> real \<Rightarrow> ui \<Rightarrow> ui" where
  "update_stats mdl out m n total_cost self =
     self\<lparr>stats_text := Some (Stats m n (m * n) total_cost (Runtime out) (IterCount out)
                               (status out) (length (vars mdl)) (length (constrs mdl)))\<rparr>"

subsection \<open>\<open>solve_transport\<close>\<close>

text \<open>The \<open>except Exception\<close> clause of lines 616 to 619.\<close>

definition except :: "exn \<Rightarrow> ui \<Rightarrow> event list \<Rightarrow> ui \<times> event list" where
  "except e self evs =
     (self\<lparr>status_label := Erreur_resolution\<rparr>, evs @ [Dialog (Critical_erreur e)])"

text \<open>Lines 474 to 476: the three tables are read in this order.\<close>

definition read_data :: "ui \<Rightarrow> nat \<Rightarrow> nat \<Rightarrow> exn + real list \<times> real list \<times> real list list" where
  "read_data self m n =
     (case comprehension (\<lambda>i. float_text (item (table_offres self) 0 i)) [0..<m] of
        Inl e \<Rightarrow> Inl e
      | Inr supply \<Rightarrow>
          (case comprehension (\<lambda>j. float_text (item (table_demandes self) 0 j)) [0..<n] of
             Inl e \<Rightarrow> Inl e
           | Inr demand \<Rightarrow>
               (case comprehension
                       (\<lambda>i. comprehension (\<lambda>j. float_text (item (table_costs self) i j)) [0..<n])
                       [0..<m] of
                  Inl e \<Rightarrow> Inl e
                | Inr costs \<Rightarrow> Inr (supply, demand, costs))))"

text \<open>Lines 492 to 614: build the model, call the solver, show what it found.\<close>

definition optimize_and_show ::
  "(model \<Rightarrow> outcome) \<Rightarrow> nat \<Rightarrow> nat \<Rightarrow> real list \<Rightarrow> real list \<Rightarrow> real list list \<Rightarrow>
     ui \<Rightarrow> event list \<Rightarrow> ui \<times> event list" where
  "optimize_and_show optimize m n supply demand costs self evs =
     (let self1 = self\<lparr>status_label := Resolution_en_cours\<rparr> in
      case build_model m n supply demand costs of
        Inl e \<Rightarrow> except e self1 evs
      | Inr (mdl, x) \<Rightarrow>
          (let out = optimize mdl; evs1 = evs @ [Optimize mdl] in
           if status out = GRB_OPTIMAL then
             (let total_cost = objVal out;
                  self2 = self1\<lparr>solution_info :=
                            Some (Solution_info total_cost (m * n) (m + n) (Runtime out)
                                    (case MIPGap out of None \<Rightarrow> 0 | Some g \<Rightarrow> g))\<rparr>
              in case fill_results m n x out costs total_cost (table_results self2) of
                   (Some e, t) \<Rightarrow> except e (self2\<lparr>table_results := t\<rparr>) evs1
                 | (None, t) \<Rightarrow>
                     (let self3 = update_stats mdl out m n total_cost (self2\<lparr>table_results := t\<rparr>)
                      in (self3\<lparr>btn_export := True,
                                status_label := Solution_optimale total_cost\<rparr>, evs1)))
           else (self1\<lparr>status_label := Aucune_solution\<rparr>,
                 evs1 @ [Dialog (Warning_aucune_solution (status out))])))"

text \<open>
  The whole handler. \<open>reply\<close> is the button the user presses if the question is asked;
  \<open>optimize\<close> is the solver.
\<close>

definition solve_transport :: "(model \<Rightarrow> outcome) \<Rightarrow> button \<Rightarrow> ui \<Rightarrow> ui \<times> event list" where
  "solve_transport optimize reply self =
     (let m = spin_usines self; n = spin_entrepots self in
      case read_data self m n of
        Inl e \<Rightarrow> except e self []
      | Inr (supply, demand, costs) \<Rightarrow>
          (let total_supply = py_sum supply; total_demand = py_sum demand in
           if \<bar>total_supply - total_demand\<bar> > 1 / 1000 then
             (let evs = [Dialog (Question_desequilibre total_supply total_demand)] in
              if reply = No then (self, evs)
              else optimize_and_show optimize m n supply demand costs self evs)
           else optimize_and_show optimize m n supply demand costs self []))"

text \<open>The models that were handed to the solver, from the events of a run.\<close>

fun solver_calls :: "event list \<Rightarrow> model list" where
  "solver_calls [] = []"
| "solver_calls (Optimize mdl # evs) = mdl # solver_calls evs"
| "solver_calls (Dialog d # evs) = solver_calls evs"

subsection \<open>What a model means\<close>

text \<open>
  An assignment gives every variable, by its position, a value. A model is satisfied by an
  assignment that respects the lower bounds and all the constraints.
\<close>

definition eval_lin :: "(nat \<Rightarrow> real) \<Rightarrow> linexpr \<Rightarrow> real" where
  "eval_lin a e = sum_list (map (\<lambda>(c, k). c * a k) e)"

definition holds :: "(nat \<Rightarrow> real) \<Rightarrow> constr \<Rightarrow> bool" where
  "holds a c = (case rel c of LE \<Rightarrow> eval_lin a (lhs c) \<le> rhs c | GE \<Rightarrow> rhs c \<le> eval_lin a (lhs c))"

definition feasible :: "model \<Rightarrow> (nat \<Rightarrow> real) \<Rightarrow> bool" where
  "feasible mdl a =
     (list_all (\<lambda>k. lb (vars mdl ! k) \<le> a k) [0..<length (vars mdl)] \<and>
      list_all (holds a) (constrs mdl))"

definition objective :: "model \<Rightarrow> (nat \<Rightarrow> real) \<Rightarrow> real" where
  "objective mdl a = sum_list (map (\<lambda>k. obj (vars mdl ! k) * a k) [0..<length (vars mdl)])"

subsection \<open>The program and the table of the specification\<close>

text \<open>
  The linear program in the words of the specification: a variable for every pair, bounded
  below by \<open>0\<close> and priced \<open>cost[i][j]\<close>; a capacity constraint for every source and a
  coverage constraint for every destination; to be minimised. The variable of the pair
  \<open>(i, j)\<close> is the one at position \<open>i * n + j\<close>.
\<close>

definition spec_var :: "real list list \<Rightarrow> nat \<Rightarrow> nat \<Rightarrow> var" where
  "spec_var costs i j =
     \<lparr>lb = 0, obj = costs ! i ! j, VarName = ''x_'' @ str_nat (i + 1) @ ''_'' @ str_nat (j + 1)\<rparr>"

definition spec_x :: "nat \<Rightarrow> nat \<Rightarrow> xdict" where
  "spec_x m n = (\<lambda>(i, j). if i < m \<and> j < n then Some (i * n + j) else None)"

definition spec_model :: "nat \<Rightarrow> nat \<Rightarrow> real list \<Rightarrow> real list \<Rightarrow> real list list \<Rightarrow> model" where
  "spec_model m n supply demand costs =
     \<lparr>ModelName = ''transport'', OutputFlag = 0,
      vars = concat (map (\<lambda>i. map (spec_var costs i) [0..<n]) [0..<m]),
      constrs =
        map (\<lambda>i. \<lparr>lhs = map (\<lambda>j. (1, i * n + j)) [0..<n], rel = LE, rhs = supply ! i,
                   ConstrName = ''supply_'' @ str_nat i\<rparr>) [0..<m] @
        map (\<lambda>j. \<lparr>lhs = map (\<lambda>i. (1, i * n + j)) [0..<m], rel = GE, rhs = demand ! j,
                   ConstrName = ''demand_'' @ str_nat j\<rparr>) [0..<n],
      modelSense = MINIMIZE\<rparr>"

text \<open>The shape the three lists have when they come out of \<open>read_data\<close>.\<close>

definition well_shaped :: "nat \<Rightarrow> nat \<Rightarrow> real list \<Rightarrow> real list \<Rightarrow> real list list \<Rightarrow> bool" where
  "well_shaped m n supply demand costs \<longleftrightarrow>
     length supply = m \<and> length demand = n \<and> length costs = m \<and>
     list_all (\<lambda>row. length row = n) costs"

text \<open>
  The result table in the words of the specification: per source the flows, the row total
  and the row cost; per destination the column total; the grand total in the last cell. The
  flow of the pair \<open>(i, j)\<close> is the value of the variable at position \<open>i * n + j\<close>.
\<close>

definition spec_items ::
  "nat \<Rightarrow> nat \<Rightarrow> real list list \<Rightarrow> (nat \<Rightarrow> real) \<Rightarrow> real \<Rightarrow> nat \<times> nat \<Rightarrow> cell option" where
  "spec_items m n costs a total_cost = (\<lambda>(i, j).
     if i < m \<and> j < n then
       Some (Num (a (i * n + j)) (if a (i * n + j) > 0 then Flow_blue else Plain))
     else if i < m \<and> j = n then Some (Num (\<Sum>j<n. a (i * n + j)) Total_grey)
     else if i < m \<and> j = n + 1 then
       Some (Num (\<Sum>j<n. costs ! i ! j * a (i * n + j)) Cost_orange)
     else if i = m \<and> j < n then Some (Num (\<Sum>i<m. a (i * n + j)) Total_grey)
     else if i = m \<and> j \<le> n + 1 then Some Blank
     else if i = m + 1 \<and> j \<le> n then Some Blank
     else if i = m + 1 \<and> j = n + 1 then Some (Num total_cost Grand_green)
     else None)"

definition spec_results ::
  "nat \<Rightarrow> nat \<Rightarrow> real list list \<Rightarrow> (nat \<Rightarrow> real) \<Rightarrow> real \<Rightarrow> results_table" where
  "spec_results m n costs a total_cost =
     \<lparr>rowCount = m + 2, columnCount = n + 2,
      horizontalHeader = map (\<lambda>j. E (j + 1)) [0..<n] @ [Offre, Cout_usine],
      verticalHeader = map (\<lambda>i. U (i + 1)) [0..<m] @ [Demande, Cout_total],
      items = spec_items m n costs a total_cost\<rparr>"

text \<open>The item that shows the flow of a pair: highlighted when the flow is positive.\<close>

definition flow_cell :: "nat \<Rightarrow> (nat \<Rightarrow> real) \<Rightarrow> nat \<Rightarrow> nat \<Rightarrow> cell" where
  "flow_cell n a i j = Num (a (i * n + j)) (if a (i * n + j) > 0 then Flow_blue else Plain)"

text \<open>The number that an item of the result table formats; \<open>0\<close> where it formats none.\<close>

definition value_at :: "results_table \<Rightarrow> nat \<times> nat \<Rightarrow> real" where
  "value_at t k = (case items t k of Some (Num v bg) \<Rightarrow> v | _ \<Rightarrow> 0)"

text \<open>
  \<open>f"{v:.2f}"\<close> read back as a number: \<open>v\<close> rounded to the nearest hundredth, a tie going
  to the even hundredth. \<open>text_at\<close> is what an item shows: nothing for an absent item and
  for the empty text.
\<close>

definition two_decimals :: "real \<Rightarrow> real" where
  "two_decimals v =
     (let k = \<lfloor>v * 100\<rfloor>; r = v * 100 - of_int k in
      of_int (if r < 1 / 2 then k else if 1 / 2 < r then k + 1 else if even k then k else k + 1)
        / 100)"

definition text_at :: "results_table \<Rightarrow> nat \<times> nat \<Rightarrow> real option" where
  "text_at t k = (case items t k of Some (Num v bg) \<Rightarrow> Some (two_decimals v) | _ \<Rightarrow> None)"

subsection \<open>The form before a solve\<close>

text \<open>
  The form as \<open>initUI\<close> leaves it: both spin boxes at \<open>3\<close>, the solve and export buttons
  disabled, nothing shown. The input tables do not exist yet; reading them raises
  \<open>AttributeError\<close>, as reading outside an existing table does.
\<close>

definition initUI :: ui where
  "initUI =
     \<lparr>spin_usines = 3, spin_entrepots = 3, table_offres = [], table_demandes = [],
      table_costs = [], btn_solve = False, btn_export = False, status_label = Pret,
      solution_info = None,
      table_results = \<lparr>rowCount = 0, columnCount = 0, horizontalHeader = [],
                        verticalHeader = [], items = (\<lambda>k. None)\<rparr>,
      stats_text = None\<rparr>"

text \<open>
  \<open>create_tables\<close>: one row of supplies and one of demands, all \<open>100\<close>, and the cost
  \<open>(i + 1) * 10 + (j + 1)\<close> for the pair \<open>(i, j)\<close>.
\<close>

definition create_tables :: "ui \<Rightarrow> ui" where
  "create_tables self =
     (let m = spin_usines self; n = spin_entrepots self in
      self\<lparr>table_offres := [map (\<lambda>i. Number 100) [0..<m]],
           table_demandes := [map (\<lambda>j. Number 100) [0..<n]],
           table_costs := map (\<lambda>i. map (\<lambda>j. Number (real ((i + 1) * 10 + (j + 1)))) [0..<n]) [0..<m],
           btn_solve := True,
           status_label := Tableaux_crees m n\<rparr>)"

subsection \<open>Example sessions\<close>

text \<open>
  Two things a solver may leave behind: the status \<open>INFEASIBLE\<close> (\<open>3\<close> in
  \<open>gurobipy\<close>), and an optimal shipment of \<open>100\<close> units on each of the pairs
  \<open>(0, 0)\<close> and \<open>(1, 1)\<close> of a problem with two sources and two destinations.
\<close>

definition left_infeasible :: outcome where
  "left_infeasible =
     \<lparr>status = 3, objVal = 0, X = (\<lambda>k. 0), Runtime = 0, MIPGap = None, IterCount = None\<rparr>"

definition left_optimal :: outcome where
  "left_optimal =
     \<lparr>status = 2, objVal = 3300, X = (\<lambda>k. if k = 0 \<or> k = 3 then 100 else 0), Runtime = 0,
      MIPGap = None, IterCount = Some 2\<rparr>"

text \<open>
  An example session: two sources and two destinations and the generated tables; and the
  same with the supplies \<open>100\<close> and \<open>200\<close> and the demands \<open>100\<close> and \<open>150\<close>
  typed in, so that the supply totals \<open>300\<close> and the demand \<open>250\<close>.
\<close>

definition two_by_two :: ui where
  "two_by_two = create_tables (initUI\<lparr>spin_usines := 2, spin_entrepots := 2\<rparr>)"

definition two_by_two_unbalanced :: ui where
  "two_by_two_unbalanced =
     two_by_two\<lparr>table_offres := [[Number 100, Number 200]],
                table_demandes := [[Number 100, Number 150]]\<rparr>"

text \<open>
  The two-by-two session with every cost set to \<open>0\<close>, and what an optimal solve of it
  leaves behind.
\<close>

definition two_by_two_free :: ui where
  "two_by_two_free = two_by_two\<lparr>table_costs := [[Number 0, Number 0], [Number 0, Number 0]]\<rparr>"

definition left_optimal_free :: outcome where
  "left_optimal_free = left_optimal\<lparr>objVal := 0\<rparr>"

text \<open>
  The session with one source and one destination and the generated tables (supply and
  demand \<open>100\<close>, cost \<open>11\<close>), and what an optimal solve of it leaves behind.
\<close>

definition one_by_one :: ui where
  "one_by_one = create_tables (initUI\<lparr>spin_usines := 1, spin_entrepots := 1\<rparr>)"

definition left_optimal_one :: outcome where
  "left_optimal_one =
     \<lparr>status = 2, objVal = 1100, X = (\<lambda>k. 100), Runtime = 0, MIPGap = None, IterCount = Some 0\<rparr>"

text \<open>
  The session with one source and one destination where the user has typed the supply
  \<open>300\<close> and the demand \<open>250\<close>, and the optimum of its model: ship \<open>250\<close>, at the
  cost \<open>11 * 250\<close>.
\<close>

definition one_by_one_unbalanced :: ui where
  "one_by_one_unbalanced =
     one_by_one\<lparr>table_offres := [[Number 300]], table_demandes := [[Number 250]]\<rparr>"

definition left_optimal_250 :: outcome where
  "left_optimal_250 =
     \<lparr>status = 2, objVal = 2750, X = (\<lambda>k. 250), Runtime = 0, MIPGap = None, IterCount = Some 0\<rparr>"

text \<open>
  The session with one source and one destination where the user has typed the supply
  \<open>1\<close>, the demand \<open>1\<close> and the cost \<open>0.125\<close>, and the optimum of its model.
\<close>

definition one_by_one_eighth :: ui where
  "one_by_one_eighth =
     one_by_one\<lparr>table_offres := [[Number 1]], table_demandes := [[Number 1]],
                table_costs := [[Number (1 / 8)]]\<rparr>"

definition left_optimal_eighth :: outcome where
  "left_optimal_eighth =
     \<lparr>status = 2, objVal = 1 / 8, X = (\<lambda>k. 1), Runtime = 0, MIPGap = None, IterCount = Some 0\<rparr>"

section \<open>Properties\<close>

subsection \<open>Loops that do not raise\<close>

lemma for_each_append:
  "for_each (xs @ ys) body s =
     (case for_each xs body s of
        (Some e, s') \<Rightarrow> (Some e, s')
      | (None, s') \<Rightarrow> for_each ys body s')"
  by (induction xs arbitrary: s) (auto split: prod.splits option.splits)

lemma for_each_pure:
  "(\<And>i s. i \<in> set xs \<Longrightarrow> body i s = (None, g i s)) \<Longrightarrow> for_each xs body s = (None, fold g xs s)"
  by (induction xs arbitrary: s) auto

lemma comprehension_pure:
  "(\<And>i. i \<in> set xs \<Longrightarrow> f i = Inr (g i)) \<Longrightarrow> comprehension f xs = Inr (map g xs)"
  by (induction xs) auto

lemma comprehension_Inr:
  "comprehension f xs = Inr vs \<Longrightarrow> length vs = length xs \<and> (\<forall>k<length xs. f (xs ! k) = Inr (vs ! k))"
proof (induction xs arbitrary: vs)
  case Nil
  then show ?case by simp
next
  case (Cons i xs)
  then show ?case
    by (auto split: sum.splits simp: nth_Cons split: nat.splits)
qed

lemma py_sum_sum_list: "py_sum xs = sum_list xs"
proof -
  have "foldl (+) a xs = a + sum_list xs" for a :: real
    by (induction xs arbitrary: a) (auto simp: algebra_simps)
  then show ?thesis by (simp add: py_sum_def)
qed

lemma add_var_step_ok:
  "i < length costs \<Longrightarrow> j < length (costs ! i) \<Longrightarrow>
   add_var_step costs i j (mdl, x) =
     (None, (mdl\<lparr>vars := vars mdl @ [spec_var costs i j]\<rparr>, x((i, j) \<mapsto> length (vars mdl))))"
  by (simp add: add_var_step_def getitem_def addVar_def spec_var_def)

lemma add_vars_inner:
  "i < length costs \<Longrightarrow> n \<le> length (costs ! i) \<Longrightarrow>
   for_each [0..<n] (add_var_step costs i) (mdl, x) =
     (None, (mdl\<lparr>vars := vars mdl @ map (spec_var costs i) [0..<n]\<rparr>,
             (\<lambda>k. if fst k = i \<and> snd k < n then Some (length (vars mdl) + snd k) else x k)))"
proof (induction n)
  case 0
  then show ?case by simp
next
  case (Suc n)
  then show ?case
    by (auto simp: for_each_append add_var_step_ok fun_eq_iff less_Suc_eq)
qed

lemma add_vars_outer:
  "m \<le> length costs \<Longrightarrow> (\<forall>i<m. n \<le> length (costs ! i)) \<Longrightarrow>
   for_each [0..<m] (\<lambda>i. for_each [0..<n] (add_var_step costs i)) (mdl, x) =
     (None, (mdl\<lparr>vars := vars mdl @ concat (map (\<lambda>i. map (spec_var costs i) [0..<n]) [0..<m])\<rparr>,
             (\<lambda>k. if fst k < m \<and> snd k < n then Some (length (vars mdl) + fst k * n + snd k) else x k)))"
proof (induction m)
  case 0
  then show ?case by simp
next
  case (Suc m)
  have len: "length (concat (map (\<lambda>i. map (spec_var costs i) [0..<n]) [0..<m])) = m * n"
    by (induction m) auto
  from Suc show ?case
    by (auto simp: for_each_append add_vars_inner len fun_eq_iff less_Suc_eq)
qed

subsection \<open>The model builder builds the linear program of the specification\<close>

lemma sum_vars_ok:
  "(\<And>k. k \<in> set ks \<Longrightarrow> x k = Some (g k)) \<Longrightarrow> sum_vars x ks = Inr (map (\<lambda>k. (1, g k)) ks)"
  by (induction ks) (auto simp: getkey_def)

lemma spec_x_simp [simp]: "i < m \<Longrightarrow> j < n \<Longrightarrow> spec_x m n (i, j) = Some (i * n + j)"
  by (simp add: spec_x_def)

lemma supply_step_ok:
  assumes "i < m" "0 < n" "m \<le> length supply"
  shows "supply_step (spec_x m n) supply n i mdl =
     (None, mdl\<lparr>constrs := constrs mdl @
        [\<lparr>lhs = map (\<lambda>j. (1, i * n + j)) [0..<n], rel = LE, rhs = supply ! i,
          ConstrName = ''supply_'' @ str_nat i\<rparr>]\<rparr>)"
proof -
  have "sum_vars (spec_x m n) (map (\<lambda>j. (i, j)) [0..<n]) =
          Inr (map (\<lambda>k. (1, fst k * n + snd k)) (map (\<lambda>j. (i, j)) [0..<n]))"
    using assms by (intro sum_vars_ok) auto
  then show ?thesis
    using assms by (simp add: supply_step_def getitem_def addConstr_def o_def)
qed

lemma demand_step_ok:
  assumes "j < n" "0 < m" "n \<le> length demand"
  shows "demand_step (spec_x m n) demand m j mdl =
     (None, mdl\<lparr>constrs := constrs mdl @
        [\<lparr>lhs = map (\<lambda>i. (1, i * n + j)) [0..<m], rel = GE, rhs = demand ! j,
          ConstrName = ''demand_'' @ str_nat j\<rparr>]\<rparr>)"
proof -
  have "sum_vars (spec_x m n) (map (\<lambda>i. (i, j)) [0..<m]) =
          Inr (map (\<lambda>k. (1, fst k * n + snd k)) (map (\<lambda>i. (i, j)) [0..<m]))"
    using assms by (intro sum_vars_ok) auto
  then show ?thesis
    using assms by (simp add: demand_step_def getitem_def addConstr_def o_def)
qed

lemma fold_add_constrs:
  "fold (\<lambda>i mdl. mdl\<lparr>constrs := constrs mdl @ [c i]\<rparr>) xs mdl =
     mdl\<lparr>constrs := constrs mdl @ map c xs\<rparr>"
  by (induction xs arbitrary: mdl) auto

lemma supply_loop:
  assumes "0 < n" "m \<le> length supply"
  shows "for_each [0..<m] (supply_step (spec_x m n) supply n) mdl =
     (None, mdl\<lparr>constrs := constrs mdl @
        map (\<lambda>i. \<lparr>lhs = map (\<lambda>j. (1, i * n + j)) [0..<n], rel = LE, rhs = supply ! i,
                   ConstrName = ''supply_'' @ str_nat i\<rparr>) [0..<m]\<rparr>)"
proof -
  have "for_each [0..<m] (supply_step (spec_x m n) supply n) mdl =
          (None, fold (\<lambda>i mdl. mdl\<lparr>constrs := constrs mdl @
             [\<lparr>lhs = map (\<lambda>j. (1, i * n + j)) [0..<n], rel = LE, rhs = supply ! i,
               ConstrName = ''supply_'' @ str_nat i\<rparr>]\<rparr>) [0..<m] mdl)"
    using assms by (intro for_each_pure supply_step_ok) auto
  then show ?thesis by (simp add: fold_add_constrs)
qed

lemma demand_loop:
  assumes "0 < m" "n \<le> length demand"
  shows "for_each [0..<n] (demand_step (spec_x m n) demand m) mdl =
     (None, mdl\<lparr>constrs := constrs mdl @
        map (\<lambda>j. \<lparr>lhs = map (\<lambda>i. (1, i * n + j)) [0..<m], rel = GE, rhs = demand ! j,
                   ConstrName = ''demand_'' @ str_nat j\<rparr>) [0..<n]\<rparr>)"
proof -
  have "for_each [0..<n] (demand_step (spec_x m n) demand m) mdl =
          (None, fold (\<lambda>j mdl. mdl\<lparr>constrs := constrs mdl @
             [\<lparr>lhs = map (\<lambda>i. (1, i * n + j)) [0..<m], rel = GE, rhs = demand ! j,
               ConstrName = ''demand_'' @ str_nat j\<rparr>]\<rparr>) [0..<n] mdl)"
    using assms by (intro for_each_pure demand_step_ok) auto
  then show ?thesis by (simp add: fold_add_constrs)
qed

lemma build_model_spec:
  assumes "0 < m" "0 < n" "well_shaped m n supply demand costs"
  shows "build_model m n supply demand costs =
           Inr (spec_model m n supply demand costs, spec_x m n)"
proof -
  have rows: "\<forall>i<m. n \<le> length (costs ! i)"
    using assms(3) by (auto simp: well_shaped_def list_all_length)
  have m: "m \<le> length costs" "m \<le> length supply" "n \<le> length demand"
    using assms(3) by (auto simp: well_shaped_def)
  let ?mdl0 = "(Model ''transport'')\<lparr>OutputFlag := 0\<rparr>"
  have x: "(\<lambda>k. if fst k < m \<and> snd k < n then Some (length (vars ?mdl0) + fst k * n + snd k)
                else Map.empty k) = spec_x m n"
    by (auto simp: spec_x_def fun_eq_iff Model_def)
  have vars: "for_each [0..<m] (\<lambda>i. for_each [0..<n] (add_var_step costs i)) (?mdl0, Map.empty) =
      (None, (?mdl0\<lparr>vars := vars ?mdl0 @ concat (map (\<lambda>i. map (spec_var costs i) [0..<n]) [0..<m])\<rparr>,
              spec_x m n))"
    unfolding add_vars_outer [OF m(1) rows] x ..
  show ?thesis
    unfolding build_model_def Let_def vars
    by (simp add: Model_def supply_loop [OF assms(2) m(2)] demand_loop [OF assms(1) m(3)]
        spec_model_def)
qed

subsection \<open>What the linear program of the specification says\<close>

lemma index_pair:
  fixes n :: nat
  assumes "i < m" "j < n"
  shows "i * n + j < m * n"
proof -
  have "i * n + j < i * n + n" using assms by simp
  also have "\<dots> = Suc i * n" by simp
  also have "\<dots> \<le> m * n" using assms by (intro mult_le_mono1) simp
  finally show ?thesis .
qed

lemma length_grid: "length (concat (map (\<lambda>i. map (f i) [0..<n]) [0..<m])) = m * n"
  by (induction m) auto

lemma nth_grid:
  "i < m \<Longrightarrow> j < n \<Longrightarrow> concat (map (\<lambda>i. map (f i) [0..<n]) [0..<m]) ! (i * n + j) = f i j"
proof (induction m)
  case 0
  then show ?case by simp
next
  case (Suc m)
  show ?case
  proof (cases "i < m")
    case True
    then have "i * n + j < m * n"
      using Suc.prems(2) by (rule index_pair)
    with True Suc show ?thesis by (simp add: nth_append length_grid)
  next
    case False
    with Suc.prems have "i = m" by simp
    with Suc.prems show ?thesis by (simp add: nth_append length_grid)
  qed
qed

lemma length_vars_spec [simp]: "length (vars (spec_model m n supply demand costs)) = m * n"
  by (simp add: spec_model_def length_grid)

lemma length_constrs_spec [simp]: "length (constrs (spec_model m n supply demand costs)) = m + n"
  by (simp add: spec_model_def)

lemma nth_vars_spec:
  "i < m \<Longrightarrow> j < n \<Longrightarrow> vars (spec_model m n supply demand costs) ! (i * n + j) = spec_var costs i j"
  by (simp add: spec_model_def nth_grid)

lemma pair_index:
  fixes n :: nat
  assumes "k < m * n"
  shows "k div n < m" "k mod n < n" "k div n * n + k mod n = k"
proof -
  have "0 < n" using assms by (cases n) auto
  then show "k mod n < n" by simp
  show "k div n < m" using assms by (simp add: less_mult_imp_div_less)
  show "k div n * n + k mod n = k" by simp
qed

lemma all_vars_iff:
  "(\<forall>k<m * n. P k) \<longleftrightarrow> (\<forall>i<m. \<forall>j<n. P (i * n + j))" for m n :: nat
proof
  assume h: "\<forall>k<m * n. P k"
  show "\<forall>i<m. \<forall>j<n. P (i * n + j)"
  proof (intro allI impI)
    fix i j assume "i < m" "j < n"
    then have "i * n + j < m * n" by (rule index_pair)
    with h show "P (i * n + j)" by simp
  qed
next
  assume h: "\<forall>i<m. \<forall>j<n. P (i * n + j)"
  show "\<forall>k<m * n. P k"
  proof (intro allI impI)
    fix k assume "k < m * n"
    from pair_index [OF this]
    have a: "k div n < m" "k mod n < n" "k div n * n + k mod n = k" .
    from h a(1) a(2) have "P (k div n * n + k mod n)" by blast
    with a(3) show "P k" by simp
  qed
qed

lemma eval_lin_ones: "eval_lin a (map (\<lambda>j. (1, f j)) [0..<n]) = (\<Sum>j<n. a (f j))"
  by (induction n) (auto simp: eval_lin_def)

lemma sum_list_upt: "sum_list (map f [0..<n]) = (\<Sum>k<n. f k)" for f :: "nat \<Rightarrow> real"
  by (induction n) auto

lemma sum_grid: "(\<Sum>k<m * n. f k) = (\<Sum>i<m. \<Sum>j<n. f (i * n + j))" for f :: "nat \<Rightarrow> real"
proof -
  have "(\<Sum>i<m. \<Sum>j<n. f (i * n + j)) = (\<Sum>i<m. sum f {i * n..<i * n + n})"
  proof (rule sum.cong [OF refl])
    fix i
    have "sum f {i * n..<i * n + n} = sum f {0 + i * n..<n + i * n}" by (simp add: add.commute)
    also have "\<dots> = (\<Sum>j = 0..<n. f (j + i * n))" by (rule sum.shift_bounds_nat_ivl)
    finally show "(\<Sum>j<n. f (i * n + j)) = sum f {i * n..<i * n + n}"
      by (simp add: atLeast0LessThan add.commute)
  qed
  also have "\<dots> = sum f {..<m * n}" by (rule sum.nat_group)
  finally show ?thesis by simp
qed

lemma feasible_spec_model:
  "feasible (spec_model m n supply demand costs) a \<longleftrightarrow>
     (\<forall>i<m. \<forall>j<n. 0 \<le> a (i * n + j)) \<and>
     (\<forall>i<m. (\<Sum>j<n. a (i * n + j)) \<le> supply ! i) \<and>
     (\<forall>j<n. demand ! j \<le> (\<Sum>i<m. a (i * n + j)))"
proof -
  have bounds: "list_all (\<lambda>k. lb (vars (spec_model m n supply demand costs) ! k) \<le> a k)
                  [0..<length (vars (spec_model m n supply demand costs))] \<longleftrightarrow>
                (\<forall>i<m. \<forall>j<n. 0 \<le> a (i * n + j))"
  proof -
    let ?vs = "vars (spec_model m n supply demand costs)"
    have "list_all (\<lambda>k. lb (?vs ! k) \<le> a k) [0..<length ?vs] \<longleftrightarrow> (\<forall>k<m * n. lb (?vs ! k) \<le> a k)"
      by (auto simp: list_all_iff)
    also have "\<dots> \<longleftrightarrow> (\<forall>i<m. \<forall>j<n. lb (?vs ! (i * n + j)) \<le> a (i * n + j))"
      by (rule all_vars_iff)
    also have "\<dots> \<longleftrightarrow> (\<forall>i<m. \<forall>j<n. 0 \<le> a (i * n + j))"
      by (simp add: nth_vars_spec spec_var_def)
    finally show ?thesis .
  qed
  have cons: "list_all (holds a) (constrs (spec_model m n supply demand costs)) \<longleftrightarrow>
                (\<forall>i<m. (\<Sum>j<n. a (i * n + j)) \<le> supply ! i) \<and>
                (\<forall>j<n. demand ! j \<le> (\<Sum>i<m. a (i * n + j)))"
  proof -
    have sup: "list_all (holds a)
                 (map (\<lambda>i. \<lparr>lhs = map (\<lambda>j. (1, i * n + j)) [0..<n], rel = LE, rhs = supply ! i,
                            ConstrName = ''supply_'' @ str_nat i\<rparr>) [0..<m]) \<longleftrightarrow>
               (\<forall>i<m. (\<Sum>j<n. a (i * n + j)) \<le> supply ! i)"
      by (auto simp: list_all_iff holds_def eval_lin_ones)
    have dem: "list_all (holds a)
                 (map (\<lambda>j. \<lparr>lhs = map (\<lambda>i. (1, i * n + j)) [0..<m], rel = GE, rhs = demand ! j,
                            ConstrName = ''demand_'' @ str_nat j\<rparr>) [0..<n]) \<longleftrightarrow>
               (\<forall>j<n. demand ! j \<le> (\<Sum>i<m. a (i * n + j)))"
      by (auto simp: list_all_iff holds_def eval_lin_ones)
    show ?thesis
      unfolding spec_model_def by (simp only: model.simps list_all_append sup dem)
  qed
  show ?thesis unfolding feasible_def bounds cons ..
qed

lemma objective_spec_model:
  "objective (spec_model m n supply demand costs) a =
     (\<Sum>i<m. \<Sum>j<n. costs ! i ! j * a (i * n + j))"
proof -
  have "objective (spec_model m n supply demand costs) a =
          (\<Sum>k<m * n. obj (vars (spec_model m n supply demand costs) ! k) * a k)"
    by (simp add: objective_def sum_list_upt)
  also have "\<dots> = (\<Sum>i<m. \<Sum>j<n. obj (vars (spec_model m n supply demand costs) ! (i * n + j)) * a (i * n + j))"
    by (rule sum_grid)
  also have "\<dots> = (\<Sum>i<m. \<Sum>j<n. costs ! i ! j * a (i * n + j))"
    by (intro sum.cong refl) (simp add: nth_vars_spec spec_var_def)
  finally show ?thesis .
qed

lemma sum_list_nth: "sum_list xs = (\<Sum>i<length xs. xs ! i)" for xs :: "real list"
  by (simp add: sum_list_sum_nth atLeast0LessThan)


lemma pair_of_index:
  fixes n :: nat
  assumes "j < n" "j' < n" "i * n + j = i' * n + j'"
  shows "i = i' \<and> j = j'"
proof -
  have "(i * n + j) div n = i" "(i' * n + j') div n = i'"
    using assms(1,2) by simp_all
  with assms(3) have "i = i'" by simp
  with assms(3) show ?thesis by simp
qed

lemma feasible_one_by_one:
  "feasible (spec_model (Suc 0) (Suc 0) [s] [d] [[c]]) a \<longleftrightarrow> 0 \<le> a 0 \<and> a 0 \<le> s \<and> d \<le> a 0"
  by (simp add: feasible_spec_model)

lemma objective_one_by_one: "objective (spec_model (Suc 0) (Suc 0) [s] [d] [[c]]) a = c * a 0"
  by (simp add: objective_spec_model)

subsection \<open>The result formatter fills the table of the specification\<close>

lemma setItem_in:
  "i < rowCount t \<Longrightarrow> j < columnCount t \<Longrightarrow> setItem i j c t = t\<lparr>items := (items t)((i, j) \<mapsto> c)\<rparr>"
  by (simp add: setItem_def)

lemma flow_step_ok:
  assumes "i < m" "j < n" "i < length costs" "j < length (costs ! i)"
  shows "flow_step (spec_x m n) out costs i j (rc, rf, t) =
           (None, (rc + costs ! i ! j * X out (i * n + j), rf + X out (i * n + j),
                   setItem i j (flow_cell n (X out) i j) t))"
  using assms by (simp add: flow_step_def getkey_def getitem_def flow_cell_def Let_def)

lemma flow_loop:
  assumes "i < m" "i < length costs" "n \<le> length (costs ! i)"
    and "i < rowCount t" "n \<le> columnCount t"
  shows "k \<le> n \<Longrightarrow> for_each [0..<k] (flow_step (spec_x m n) out costs i) (rc, rf, t) =
           (None, (rc + (\<Sum>j<k. costs ! i ! j * X out (i * n + j)), rf + (\<Sum>j<k. X out (i * n + j)),
                   t\<lparr>items := (\<lambda>q. if fst q = i \<and> snd q < k then Some (flow_cell n (X out) i (snd q))
                                     else items t q)\<rparr>))"
proof (induction k)
  case 0
  then show ?case by simp
next
  case (Suc k)
  then have k: "k < n" "k \<le> n" by simp_all
  have step: "flow_step (spec_x m n) out costs i k (rc', rf', t') =
           (None, (rc' + costs ! i ! k * X out (i * n + k), rf' + X out (i * n + k),
                   setItem i k (flow_cell n (X out) i k) t'))" for rc' rf' t'
    using assms k by (intro flow_step_ok) auto
  show ?case
    using assms k
    by (simp add: for_each_append Suc.IH [OF k(2)] step setItem_def fun_eq_iff less_Suc_eq
        add.assoc)
qed

lemma row_step_ok:
  assumes "i < m" "i < length costs" "n \<le> length (costs ! i)"
    and "i < rowCount t" "columnCount t = n + 2"
  shows "row_step (spec_x m n) out costs n i t =
     (None, t\<lparr>items := (\<lambda>q. if fst q = i \<and> snd q < n + 2 then spec_items m n costs (X out) total_cost q
                            else items t q)\<rparr>)"
proof -
  have "n \<le> columnCount t" using assms(5) by simp
  from flow_loop [OF assms(1-4) this, of n out 0 0]
  show ?thesis
    using assms
    by (simp add: row_step_def setItem_def fun_eq_iff spec_items_def flow_cell_def split_beta)
qed

lemma rows_loop:
  assumes "m \<le> length costs" "\<forall>i<m. n \<le> length (costs ! i)"
    and "rowCount t = m + 2" "columnCount t = n + 2"
  shows "k \<le> m \<Longrightarrow> for_each [0..<k] (row_step (spec_x m n) out costs n) t =
     (None, t\<lparr>items := (\<lambda>q. if fst q < k \<and> snd q < n + 2 then spec_items m n costs (X out) total_cost q
                            else items t q)\<rparr>)"
proof (induction k)
  case 0
  then show ?case by simp
next
  case (Suc k)
  then have k: "k < m" "k \<le> m" by simp_all
  let ?t = "t\<lparr>items := (\<lambda>q. if fst q < k \<and> snd q < n + 2 then spec_items m n costs (X out) total_cost q
                            else items t q)\<rparr>"
  have "row_step (spec_x m n) out costs n k ?t =
     (None, ?t\<lparr>items := (\<lambda>q. if fst q = k \<and> snd q < n + 2 then spec_items m n costs (X out) total_cost q
                            else items ?t q)\<rparr>)"
    using assms k by (intro row_step_ok) auto
  then show ?case
    by (simp add: for_each_append Suc.IH [OF k(2)] fun_eq_iff less_Suc_eq)
qed

lemma demand_row_step_ok:
  assumes "j < n" "rowCount t = m + 2" "columnCount t = n + 2"
  shows "demand_row_step (spec_x m n) out m j t =
     (None, t\<lparr>items := (items t)((m, j) \<mapsto> Num (\<Sum>i<m. X out (i * n + j)) Total_grey)\<rparr>)"
proof -
  have "comprehension (\<lambda>i. case getkey (spec_x m n) (i, j) of Inl e \<Rightarrow> Inl e | Inr v \<Rightarrow> Inr (X out v))
          [0..<m] = Inr (map (\<lambda>i. X out (i * n + j)) [0..<m])"
    using assms(1) by (intro comprehension_pure) (simp add: getkey_def)
  then show ?thesis
    using assms by (simp add: demand_row_step_def setItem_def py_sum_sum_list sum_list_upt)
qed

lemma demand_row_loop:
  assumes "rowCount t = m + 2" "columnCount t = n + 2"
  shows "k \<le> n \<Longrightarrow> for_each [0..<k] (demand_row_step (spec_x m n) out m) t =
     (None, t\<lparr>items := (\<lambda>q. if fst q = m \<and> snd q < k
                            then Some (Num (\<Sum>i<m. X out (i * n + snd q)) Total_grey)
                            else items t q)\<rparr>)"
proof (induction k)
  case 0
  then show ?case by simp
next
  case (Suc k)
  then have k: "k < n" "k \<le> n" by simp_all
  let ?t = "t\<lparr>items := (\<lambda>q. if fst q = m \<and> snd q < k
                            then Some (Num (\<Sum>i<m. X out (i * n + snd q)) Total_grey)
                            else items t q)\<rparr>"
  have "demand_row_step (spec_x m n) out m k ?t =
     (None, ?t\<lparr>items := (items ?t)((m, k) \<mapsto> Num (\<Sum>i<m. X out (i * n + k)) Total_grey)\<rparr>)"
    using assms k by (intro demand_row_step_ok) auto
  then show ?case
    by (simp add: for_each_append Suc.IH [OF k(2)] fun_eq_iff less_Suc_eq)
qed

lemma last_row_fold:
  assumes "r < rowCount t"
  shows "k \<le> columnCount t \<Longrightarrow> fold (\<lambda>j. setItem r j (g j)) [0..<k] t =
     t\<lparr>items := (\<lambda>q. if fst q = r \<and> snd q < k then Some (g (snd q)) else items t q)\<rparr>"
proof (induction k)
  case 0
  then show ?case by simp
next
  case (Suc k)
  then show ?case
    using assms by (simp add: setItem_def fun_eq_iff less_Suc_eq)
qed

lemma fill_results_spec:
  assumes "length costs = m" "list_all (\<lambda>row. length row = n) costs"
  shows "fill_results m n (spec_x m n) out costs total_cost t0 =
           (None, spec_results m n costs (X out) total_cost)"
proof -
  define t2 where "t2 = (setColumnCount (n + 2) (setRowCount (m + 2) t0))
               \<lparr>horizontalHeader := map (\<lambda>j. E (j + 1)) [0..<n] @ [Offre, Cout_usine],
                verticalHeader := map (\<lambda>i. U (i + 1)) [0..<m] @ [Demande, Cout_total]\<rparr>"
  define t3 where "t3 = t2\<lparr>items := (\<lambda>q. if fst q < m \<and> snd q < n + 2
                            then spec_items m n costs (X out) total_cost q else items t2 q)\<rparr>"
  define t4 where "t4 = t3\<lparr>items := (\<lambda>q. if fst q = m \<and> snd q < n
                            then Some (Num (\<Sum>i<m. X out (i * n + snd q)) Total_grey)
                            else items t3 q)\<rparr>"
  define t5 where "t5 = setItem m (n + 1) Blank (setItem m n Blank t4)"
  define t6 where "t6 = t5\<lparr>items := (\<lambda>q. if fst q = m + 1 \<and> snd q < n + 2
                            then Some (if snd q = n + 1 then Num total_cost Grand_green else Blank)
                            else items t5 q)\<rparr>"
  have dims: "rowCount t2 = m + 2" "columnCount t2 = n + 2"
    by (simp_all add: t2_def setColumnCount_def setRowCount_def)
  have costs: "m \<le> length costs" "\<forall>i<m. n \<le> length (costs ! i)"
    using assms by (auto simp: list_all_length)
  have rows: "for_each [0..<m] (row_step (spec_x m n) out costs n) t2 = (None, t3)"
    unfolding t3_def by (rule rows_loop [OF costs dims]) simp
  have dims3: "rowCount t3 = m + 2" "columnCount t3 = n + 2"
    using dims by (simp_all add: t3_def)
  have cols: "for_each [0..<n] (demand_row_step (spec_x m n) out m) t3 = (None, t4)"
    unfolding t4_def by (rule demand_row_loop [OF dims3]) simp
  have dims4: "rowCount t4 = m + 2" "columnCount t4 = n + 2"
    using dims3 by (simp_all add: t4_def)
  have t5: "t5 = t4\<lparr>items := (items t4)((m, n) \<mapsto> Blank, (m, n + 1) \<mapsto> Blank)\<rparr>"
    using dims4 by (simp add: t5_def setItem_def)
  have dims5: "m + 1 < rowCount t5" "n + 2 \<le> columnCount t5"
    using dims4 by (simp_all add: t5)
  have last: "fold (\<lambda>j. setItem (m + 1) j (if j = n + 1 then Num total_cost Grand_green else Blank))
                [0..<n + 2] t5 = t6"
    unfolding t6_def by (rule last_row_fold [OF dims5])
  have run: "fill_results m n (spec_x m n) out costs total_cost t0 = (None, t6)"
    by (simp only: fill_results_def Let_def t2_def [symmetric] rows cols t5_def [symmetric] last
        prod.case option.case)
  have frame: "rowCount t6 = m + 2" "columnCount t6 = n + 2"
    "horizontalHeader t6 = map (\<lambda>j. E (j + 1)) [0..<n] @ [Offre, Cout_usine]"
    "verticalHeader t6 = map (\<lambda>i. U (i + 1)) [0..<m] @ [Demande, Cout_total]"
    by (simp_all add: t6_def t5 t4_def t3_def t2_def setColumnCount_def setRowCount_def)
  have cells: "items t6 q = spec_items m n costs (X out) total_cost q" for q
    by (cases q)
      (simp add: t6_def t5 t4_def t3_def t2_def setColumnCount_def setRowCount_def spec_items_def)
  have "t6 = spec_results m n costs (X out) total_cost"
    unfolding spec_results_def
    by (rule results_table.equality) (simp_all add: frame cells fun_eq_iff)
  with run show ?thesis by simp
qed

lemma items_spec_results:
  "i < m \<Longrightarrow> j < n \<Longrightarrow> items (spec_results m n costs a total_cost) (i, j) = Some (flow_cell n a i j)"
  "i < m \<Longrightarrow> items (spec_results m n costs a total_cost) (i, n) =
     Some (Num (\<Sum>j<n. a (i * n + j)) Total_grey)"
  "i < m \<Longrightarrow> items (spec_results m n costs a total_cost) (i, Suc n) =
     Some (Num (\<Sum>j<n. costs ! i ! j * a (i * n + j)) Cost_orange)"
  "j < n \<Longrightarrow> items (spec_results m n costs a total_cost) (m, j) =
     Some (Num (\<Sum>i<m. a (i * n + j)) Total_grey)"
  "items (spec_results m n costs a total_cost) (Suc m, Suc n) = Some (Num total_cost Grand_green)"
  by (simp_all add: spec_results_def spec_items_def flow_cell_def)

lemma value_at_spec_results:
  "i < m \<Longrightarrow> j < n \<Longrightarrow> value_at (spec_results m n costs a total_cost) (i, j) = a (i * n + j)"
  "i < m \<Longrightarrow> value_at (spec_results m n costs a total_cost) (i, n) = (\<Sum>j<n. a (i * n + j))"
  "i < m \<Longrightarrow> value_at (spec_results m n costs a total_cost) (i, Suc n) =
     (\<Sum>j<n. costs ! i ! j * a (i * n + j))"
  "j < n \<Longrightarrow> value_at (spec_results m n costs a total_cost) (m, j) = (\<Sum>i<m. a (i * n + j))"
  "value_at (spec_results m n costs a total_cost) (Suc m, Suc n) = total_cost"
  by (simp_all add: value_at_def items_spec_results flow_cell_def)

subsection \<open>The branches of the handler\<close>

lemma read_data_well_shaped:
  assumes "read_data self m n = Inr (supply, demand, costs)"
  shows "well_shaped m n supply demand costs"
proof -
  from assms obtain
    s: "comprehension (\<lambda>i. float_text (item (table_offres self) 0 i)) [0..<m] = Inr supply" and
    d: "comprehension (\<lambda>j. float_text (item (table_demandes self) 0 j)) [0..<n] = Inr demand" and
    c: "comprehension (\<lambda>i. comprehension (\<lambda>j. float_text (item (table_costs self) i j)) [0..<n])
          [0..<m] = Inr costs"
    by (auto simp: read_data_def split: sum.splits)
  from comprehension_Inr [OF s] have ls: "length supply = m" by simp
  from comprehension_Inr [OF d] have ld: "length demand = n" by simp
  from comprehension_Inr [OF c] have lc: "length costs = m"
    and rows: "\<forall>k<m. comprehension (\<lambda>j. float_text (item (table_costs self) k j)) [0..<n] = Inr (costs ! k)"
    by simp_all
  have "length (costs ! k) = n" if "k < m" for k
    using rows that comprehension_Inr [of "\<lambda>j. float_text (item (table_costs self) k j)" "[0..<n]" "costs ! k"]
    by simp
  with lc have "list_all (\<lambda>row. length row = n) costs"
    by (simp add: list_all_length)
  with ls ld lc show ?thesis by (simp add: well_shaped_def)
qed

lemma optimize_and_show_optimal:
  assumes "0 < m" "0 < n" "well_shaped m n supply demand costs"
    and "status (optimize (spec_model m n supply demand costs)) = GRB_OPTIMAL"
  shows "optimize_and_show optimize m n supply demand costs self evs =
    (self\<lparr>status_label := Solution_optimale (objVal (optimize (spec_model m n supply demand costs))),
          solution_info :=
            Some (Solution_info (objVal (optimize (spec_model m n supply demand costs))) (m * n) (m + n)
                    (Runtime (optimize (spec_model m n supply demand costs)))
                    (case MIPGap (optimize (spec_model m n supply demand costs)) of
                       None \<Rightarrow> 0 | Some g \<Rightarrow> g)),
          table_results :=
            spec_results m n costs (X (optimize (spec_model m n supply demand costs)))
              (objVal (optimize (spec_model m n supply demand costs))),
          stats_text :=
            Some (Stats m n (m * n) (objVal (optimize (spec_model m n supply demand costs)))
                    (Runtime (optimize (spec_model m n supply demand costs)))
                    (IterCount (optimize (spec_model m n supply demand costs)))
                    (status (optimize (spec_model m n supply demand costs))) (m * n) (m + n)),
          btn_export := True\<rparr>,
     evs @ [Optimize (spec_model m n supply demand costs)])"
proof -
  have costs: "length costs = m" "list_all (\<lambda>row. length row = n) costs"
    using assms(3) by (simp_all add: well_shaped_def)
  show ?thesis
    using assms(4)
    by (simp add: optimize_and_show_def build_model_spec [OF assms(1-3)] Let_def
        fill_results_spec [OF costs] update_stats_def)
qed

lemma optimize_and_show_not_optimal:
  assumes "0 < m" "0 < n" "well_shaped m n supply demand costs"
    and "status (optimize (spec_model m n supply demand costs)) \<noteq> GRB_OPTIMAL"
  shows "optimize_and_show optimize m n supply demand costs self evs =
    (self\<lparr>status_label := Aucune_solution\<rparr>,
     evs @ [Optimize (spec_model m n supply demand costs),
            Dialog (Warning_aucune_solution (status (optimize (spec_model m n supply demand costs))))])"
  using assms(4) by (simp add: optimize_and_show_def build_model_spec [OF assms(1-3)] Let_def)

lemma not_No [simp]: "reply \<noteq> No \<longleftrightarrow> reply = Yes"
  by (cases reply) simp_all

lemma solve_transport_declined:
  assumes "read_data self (spin_usines self) (spin_entrepots self) = Inr (supply, demand, costs)"
    and "\<bar>py_sum supply - py_sum demand\<bar> > 1 / 1000"
  shows "solve_transport optimize No self =
           (self, [Dialog (Question_desequilibre (py_sum supply) (py_sum demand))])"
  using assms by (simp add: solve_transport_def Let_def)

lemma solve_transport_proceeds:
  assumes "read_data self (spin_usines self) (spin_entrepots self) = Inr (supply, demand, costs)"
    and "reply = Yes \<or> \<bar>py_sum supply - py_sum demand\<bar> \<le> 1 / 1000"
  shows "solve_transport optimize reply self =
           optimize_and_show optimize (spin_usines self) (spin_entrepots self) supply demand costs self
             (if \<bar>py_sum supply - py_sum demand\<bar> > 1 / 1000
              then [Dialog (Question_desequilibre (py_sum supply) (py_sum demand))] else [])"
  using assms by (auto simp: solve_transport_def Let_def)

lemma solver_calls_append [simp]: "solver_calls (xs @ ys) = solver_calls xs @ solver_calls ys"
  by (induction xs rule: solver_calls.induct) simp_all

lemma solve_transport_calls:
  assumes "0 < spin_usines self" "0 < spin_entrepots self"
    and "read_data self (spin_usines self) (spin_entrepots self) = Inr (supply, demand, costs)"
    and "reply = Yes \<or> \<bar>py_sum supply - py_sum demand\<bar> \<le> 1 / 1000"
  shows "solver_calls (snd (solve_transport optimize reply self)) =
           [spec_model (spin_usines self) (spin_entrepots self) supply demand costs]"
proof -
  note ws = read_data_well_shaped [OF assms(3)]
  show ?thesis
  proof (cases "status (optimize (spec_model (spin_usines self) (spin_entrepots self)
                  supply demand costs)) = GRB_OPTIMAL")
    case True
    with assms(1,2) ws show ?thesis
      by (simp add: solve_transport_proceeds [OF assms(3,4)] optimize_and_show_optimal)
  next
    case False
    with assms(1,2) ws show ?thesis
      by (simp add: solve_transport_proceeds [OF assms(3,4)] optimize_and_show_not_optimal)
  qed
qed

lemma solve_transport_events:
  assumes "0 < spin_usines self" "0 < spin_entrepots self"
    and "read_data self (spin_usines self) (spin_entrepots self) = Inr (supply, demand, costs)"
    and "reply = Yes \<or> \<bar>py_sum supply - py_sum demand\<bar> \<le> 1 / 1000"
  shows "snd (solve_transport optimize reply self) =
           (if \<bar>py_sum supply - py_sum demand\<bar> > 1 / 1000
            then [Dialog (Question_desequilibre (py_sum supply) (py_sum demand))] else []) @
           Optimize (spec_model (spin_usines self) (spin_entrepots self) supply demand costs) #
           (if status (optimize (spec_model (spin_usines self) (spin_entrepots self)
                  supply demand costs)) = GRB_OPTIMAL then []
            else [Dialog (Warning_aucune_solution
                    (status (optimize (spec_model (spin_usines self) (spin_entrepots self)
                       supply demand costs))))])"
proof -
  note ws = read_data_well_shaped [OF assms(3)]
  show ?thesis
  proof (cases "status (optimize (spec_model (spin_usines self) (spin_entrepots self)
                  supply demand costs)) = GRB_OPTIMAL")
    case True
    with assms(1,2) ws show ?thesis
      by (simp add: solve_transport_proceeds [OF assms(3,4)] optimize_and_show_optimal)
  next
    case False
    with assms(1,2) ws show ?thesis
      by (simp add: solve_transport_proceeds [OF assms(3,4)] optimize_and_show_not_optimal)
  qed
qed

lemma solve_transport_not_optimal:
  assumes "0 < spin_usines self" "0 < spin_entrepots self"
    and "read_data self (spin_usines self) (spin_entrepots self) = Inr (supply, demand, costs)"
    and "reply = Yes \<or> \<bar>py_sum supply - py_sum demand\<bar> \<le> 1 / 1000"
    and "status (optimize (spec_model (spin_usines self) (spin_entrepots self)
                  supply demand costs)) \<noteq> GRB_OPTIMAL"
  shows "fst (solve_transport optimize reply self) = self\<lparr>status_label := Aucune_solution\<rparr>"
  using assms(1,2,5) read_data_well_shaped [OF assms(3)]
  by (simp add: solve_transport_proceeds [OF assms(3,4)] optimize_and_show_not_optimal)

lemma solve_transport_optimal:
  assumes "0 < spin_usines self" "0 < spin_entrepots self"
    and "read_data self (spin_usines self) (spin_entrepots self) = Inr (supply, demand, costs)"
    and "reply = Yes \<or> \<bar>py_sum supply - py_sum demand\<bar> \<le> 1 / 1000"
    and "status (optimize (spec_model (spin_usines self) (spin_entrepots self)
                  supply demand costs)) = GRB_OPTIMAL"
  shows "table_results (fst (solve_transport optimize reply self)) =
           spec_results (spin_usines self) (spin_entrepots self) costs
             (X (optimize (spec_model (spin_usines self) (spin_entrepots self) supply demand costs)))
             (objVal (optimize (spec_model (spin_usines self) (spin_entrepots self)
                supply demand costs)))"
    and "status_label (fst (solve_transport optimize reply self)) =
           Solution_optimale (objVal (optimize (spec_model (spin_usines self) (spin_entrepots self)
                supply demand costs)))"
    and "btn_export (fst (solve_transport optimize reply self))"
  using assms(1,2,5) read_data_well_shaped [OF assms(3)]
  by (simp_all add: solve_transport_proceeds [OF assms(3,4)] optimize_and_show_optimal)

subsection \<open>The example sessions\<close>

lemma upt_2: "[0..<2] = [0, 1]"
  by (simp add: upt_rec)

lemma upt_2_spec: "spec_model 2 2 supply demand costs =
     \<lparr>ModelName = ''transport'', OutputFlag = 0,
      vars = [spec_var costs 0 0, spec_var costs 0 1, spec_var costs 1 0, spec_var costs 1 1],
      constrs =
        [\<lparr>lhs = [(1, 0), (1, 1)], rel = LE, rhs = supply ! 0, ConstrName = ''supply_'' @ str_nat 0\<rparr>,
         \<lparr>lhs = [(1, 2), (1, 3)], rel = LE, rhs = supply ! 1, ConstrName = ''supply_'' @ str_nat 1\<rparr>,
         \<lparr>lhs = [(1, 0), (1, 2)], rel = GE, rhs = demand ! 0, ConstrName = ''demand_'' @ str_nat 0\<rparr>,
         \<lparr>lhs = [(1, 1), (1, 3)], rel = GE, rhs = demand ! 1, ConstrName = ''demand_'' @ str_nat 1\<rparr>],
      modelSense = MINIMIZE\<rparr>"
  by (simp add: spec_model_def upt_2)

lemma read_two_by_two:
  "read_data two_by_two 2 2 = Inr ([100, 100], [100, 100], [[11, 12], [21, 22]])"
  by (simp add: read_data_def two_by_two_def create_tables_def initUI_def upt_2 item_def
      float_text_def)

lemma read_two_by_two_unbalanced:
  "read_data two_by_two_unbalanced 2 2 = Inr ([100, 200], [100, 150], [[11, 12], [21, 22]])"
  by (simp add: read_data_def two_by_two_unbalanced_def two_by_two_def create_tables_def
      initUI_def upt_2 item_def float_text_def)

lemma read_two_by_two_free:
  "read_data two_by_two_free 2 2 = Inr ([100, 100], [100, 100], [[0, 0], [0, 0]])"
  by (simp add: read_data_def two_by_two_free_def two_by_two_def create_tables_def initUI_def
      upt_2 item_def float_text_def)

lemma read_one_by_one: "read_data one_by_one 1 1 = Inr ([100], [100], [[11]])"
  by (simp add: read_data_def one_by_one_def create_tables_def initUI_def item_def float_text_def)

lemma spins_two_by_two [simp]:
  "spin_usines two_by_two = 2" "spin_entrepots two_by_two = 2"
  "spin_usines two_by_two_unbalanced = 2" "spin_entrepots two_by_two_unbalanced = 2"
  by (simp_all add: two_by_two_unbalanced_def two_by_two_def create_tables_def initUI_def)

lemma spins_two_by_two_free [simp]:
  "spin_usines two_by_two_free = 2" "spin_entrepots two_by_two_free = 2"
  by (simp_all add: two_by_two_free_def)

lemma spins_one_by_one [simp]: "spin_usines one_by_one = 1" "spin_entrepots one_by_one = 1"
  by (simp_all add: one_by_one_def create_tables_def initUI_def)

lemma build_two_by_two:
  "build_model 2 2 [100, 100] [100, 100] [[11, 12], [21, 22]] =
     Inr (spec_model 2 2 [100, 100] [100, 100] [[11, 12], [21, 22]], spec_x 2 2)"
  by (rule build_model_spec) (simp_all add: well_shaped_def)

lemma spins_one_by_one_unbalanced [simp]:
  "spin_usines one_by_one_unbalanced = 1" "spin_entrepots one_by_one_unbalanced = 1"
  by (simp_all add: one_by_one_unbalanced_def)

lemma read_one_by_one_unbalanced:
  "read_data one_by_one_unbalanced 1 1 = Inr ([300], [250], [[11]])"
  by (simp add: read_data_def one_by_one_unbalanced_def one_by_one_def create_tables_def
      initUI_def item_def float_text_def)

subsection \<open>Declining the question\<close>

text \<open>
  C6. On an imbalanced input, declining the question ends the handler at once: the widgets
  are as they were, the solver was not called, and the only thing the user saw is the
  question itself.
\<close>

theorem decline_aborts_without_side_effects:
  assumes "read_data self (spin_usines self) (spin_entrepots self) = Inr (supply, demand, costs)"
    and "\<bar>py_sum supply - py_sum demand\<bar> > 1 / 1000"
  shows "fst (solve_transport optimize No self) = self \<and>
         solver_calls (snd (solve_transport optimize No self)) = [] \<and>
         snd (solve_transport optimize No self) =
           [Dialog (Question_desequilibre (py_sum supply) (py_sum demand))]"
  by (simp add: solve_transport_declined [OF assms])

theorem decline_aborts_witness:
  "read_data two_by_two_unbalanced (spin_usines two_by_two_unbalanced)
     (spin_entrepots two_by_two_unbalanced) = Inr ([100, 200], [100, 150], [[11, 12], [21, 22]]) \<and>
   \<bar>py_sum [100, 200] - py_sum [100, 150]\<bar> > 1 / 1000 \<and>
   fst (solve_transport (\<lambda>mdl. left_infeasible) No two_by_two_unbalanced) = two_by_two_unbalanced \<and>
   solver_calls (snd (solve_transport (\<lambda>mdl. left_infeasible) No two_by_two_unbalanced)) = [] \<and>
   snd (solve_transport (\<lambda>mdl. left_infeasible) No two_by_two_unbalanced) = [Dialog (Question_desequilibre 300 250)]"
proof -
  have r: "read_data two_by_two_unbalanced (spin_usines two_by_two_unbalanced)
     (spin_entrepots two_by_two_unbalanced) = Inr ([100, 200], [100, 150], [[11, 12], [21, 22]])"
    by (simp add: read_two_by_two_unbalanced)
  have u: "\<bar>py_sum [100, 200] - py_sum [100, 150]\<bar> > 1 / 1000"
    by (simp add: py_sum_def)
  show ?thesis
    using decline_aborts_without_side_effects [OF r u, of "\<lambda>mdl. left_infeasible"] r u
    by (simp add: py_sum_def)
qed

subsection \<open>The model that is handed to the solver\<close>

text \<open>
  C3. On a balanced input with \<open>m\<close> sources and \<open>n\<close> destinations (both at least \<open>1\<close>,
  as the spin boxes make them), the solver is called once, with the model that the builder
  returns, and that model has \<open>m * n\<close> variables and \<open>m + n\<close> constraints.
\<close>

theorem balanced_model_has_mn_variables_and_m_plus_n_constraints:
  assumes "0 < spin_usines self" "0 < spin_entrepots self"
    and "read_data self (spin_usines self) (spin_entrepots self) = Inr (supply, demand, costs)"
    and "py_sum supply = py_sum demand"
  shows "map Inr (solver_calls (snd (solve_transport optimize reply self))) =
           [map_sum id fst (build_model (spin_usines self) (spin_entrepots self) supply demand costs)] \<and>
         map (\<lambda>mdl. (length (vars mdl), length (constrs mdl)))
           (solver_calls (snd (solve_transport optimize reply self))) =
           [(spin_usines self * spin_entrepots self, spin_usines self + spin_entrepots self)]"
proof -
  have "reply = Yes \<or> \<bar>py_sum supply - py_sum demand\<bar> \<le> 1 / 1000"
    using assms(4) by simp
  from solve_transport_calls [OF assms(1-3) this]
  show ?thesis
    by (simp add: build_model_spec [OF assms(1,2) read_data_well_shaped [OF assms(3)]])
qed

theorem balanced_model_size_witness:
  "0 < spin_usines two_by_two \<and> 0 < spin_entrepots two_by_two \<and>
   read_data two_by_two (spin_usines two_by_two) (spin_entrepots two_by_two) =
     Inr ([100, 100], [100, 100], [[11, 12], [21, 22]]) \<and>
   py_sum [100, 100] = py_sum [100, 100] \<and>
   map (\<lambda>mdl. (length (vars mdl), length (constrs mdl)))
     (solver_calls (snd (solve_transport (\<lambda>mdl. left_optimal) Yes two_by_two))) = [(4, 4)]"
proof -
  have r: "read_data two_by_two (spin_usines two_by_two) (spin_entrepots two_by_two) =
     Inr ([100, 100], [100, 100], [[11, 12], [21, 22]])"
    by (simp add: read_two_by_two)
  have p: "0 < spin_usines two_by_two" "0 < spin_entrepots two_by_two"
    by simp_all
  show ?thesis
    using balanced_model_has_mn_variables_and_m_plus_n_constraints
      [OF p r refl, of "\<lambda>mdl. left_optimal" Yes] r
    by simp
qed

subsection \<open>A confirmed imbalance\<close>

text \<open>
  C1. The question is asked, but nothing is added. With the supplies \<open>100\<close> and \<open>200\<close>
  and the demands \<open>100\<close> and \<open>150\<close>, and the reply \<open>Yes\<close>, the user is asked about
  \<open>300\<close> against \<open>250\<close>, and the solver then receives four variables and the four
  constraints of the two sources and the two destinations, with the right-hand sides as they
  were typed: no third destination that takes the \<open>50\<close> left over, and \<open>300\<close> against
  \<open>250\<close> still.
\<close>

theorem confirmed_imbalance_is_solved_without_dummy:
  "hd (snd (solve_transport optimize Yes two_by_two_unbalanced)) =
     Dialog (Question_desequilibre 300 250) \<and>
   map (\<lambda>mdl. (length (vars mdl), map (\<lambda>c. (rel c, rhs c)) (constrs mdl)))
     (solver_calls (snd (solve_transport optimize Yes two_by_two_unbalanced))) =
     [(4, [(LE, 100), (LE, 200), (GE, 100), (GE, 150)])] \<and>
   map (\<lambda>mdl. (sum_list (map rhs (filter (\<lambda>c. rel c = LE) (constrs mdl))),
                sum_list (map rhs (filter (\<lambda>c. rel c = GE) (constrs mdl)))))
     (solver_calls (snd (solve_transport optimize Yes two_by_two_unbalanced))) = [(300, 250)]"
proof -
  let ?self = two_by_two_unbalanced
  have r: "read_data ?self (spin_usines ?self) (spin_entrepots ?self) =
             Inr ([100, 200], [100, 150], [[11, 12], [21, 22]])"
    by (simp add: read_two_by_two_unbalanced)
  have p: "0 < spin_usines ?self" "0 < spin_entrepots ?self"
    by simp_all
  have calls: "solver_calls (snd (solve_transport optimize Yes ?self)) =
          [spec_model 2 2 [100, 200] [100, 150] [[11, 12], [21, 22]]]"
    using solve_transport_calls [OF p r, of Yes optimize] by simp
  have first: "hd (snd (solve_transport optimize Yes ?self)) = Dialog (Question_desequilibre 300 250)"
    using solve_transport_events [OF p r, of Yes optimize] by (simp add: py_sum_def)
  show ?thesis
    unfolding calls first by (simp add: upt_2_spec)
qed

subsection \<open>A status other than optimal\<close>

text \<open>
  C5, as the code has it. When the solver leaves a status other than \<open>OPTIMAL\<close>, the last
  thing the user sees is the warning that carries that very status code; the result table,
  the solution summary, the statistics and the export button are as they were, and so are
  the inputs. The status bar is not: it now reads that no optimal solution was found.
\<close>

theorem non_optimal_status_is_reported_and_results_kept:
  assumes "0 < spin_usines self" "0 < spin_entrepots self"
    and "read_data self (spin_usines self) (spin_entrepots self) = Inr (supply, demand, costs)"
    and "reply = Yes \<or> \<bar>py_sum supply - py_sum demand\<bar> \<le> 1 / 1000"
    and "build_model (spin_usines self) (spin_entrepots self) supply demand costs = Inr (mdl, x)"
    and "status (optimize mdl) \<noteq> GRB_OPTIMAL"
  shows "last (snd (solve_transport optimize reply self)) =
           Dialog (Warning_aucune_solution (status (optimize mdl))) \<and>
         fst (solve_transport optimize reply self) = self\<lparr>status_label := Aucune_solution\<rparr> \<and>
         table_results (fst (solve_transport optimize reply self)) = table_results self \<and>
         solution_info (fst (solve_transport optimize reply self)) = solution_info self \<and>
         stats_text (fst (solve_transport optimize reply self)) = stats_text self \<and>
         btn_export (fst (solve_transport optimize reply self)) = btn_export self"
proof -
  have mdl: "mdl = spec_model (spin_usines self) (spin_entrepots self) supply demand costs"
    using assms(5) build_model_spec [OF assms(1,2) read_data_well_shaped [OF assms(3)]] by simp
  have state: "fst (solve_transport optimize reply self) = self\<lparr>status_label := Aucune_solution\<rparr>"
    using assms(6) unfolding mdl
    by (rule solve_transport_not_optimal [where optimize = optimize, OF assms(1-4)])
  have shown: "last (snd (solve_transport optimize reply self)) =
           Dialog (Warning_aucune_solution (status (optimize mdl)))"
    using assms(6) unfolding mdl by (simp add: solve_transport_events [OF assms(1-4)])
  show ?thesis
    unfolding state using shown by simp
qed

theorem non_optimal_status_witness:
  "0 < spin_usines two_by_two \<and> 0 < spin_entrepots two_by_two \<and>
   read_data two_by_two (spin_usines two_by_two) (spin_entrepots two_by_two) =
     Inr ([100, 100], [100, 100], [[11, 12], [21, 22]]) \<and>
   \<bar>py_sum [100, 100] - py_sum [100, 100]\<bar> \<le> 1 / 1000 \<and>
   build_model (spin_usines two_by_two) (spin_entrepots two_by_two) [100, 100] [100, 100]
     [[11, 12], [21, 22]] =
     Inr (spec_model 2 2 [100, 100] [100, 100] [[11, 12], [21, 22]], spec_x 2 2) \<and>
   status left_infeasible \<noteq> GRB_OPTIMAL \<and>
   last (snd (solve_transport (\<lambda>mdl. left_infeasible) No two_by_two)) =
     Dialog (Warning_aucune_solution 3) \<and>
   fst (solve_transport (\<lambda>mdl. left_infeasible) No two_by_two) =
     two_by_two\<lparr>status_label := Aucune_solution\<rparr> \<and>
   table_results (fst (solve_transport (\<lambda>mdl. left_infeasible) No two_by_two)) =
     table_results two_by_two"
proof -
  have p: "0 < spin_usines two_by_two" "0 < spin_entrepots two_by_two"
    by simp_all
  have r: "read_data two_by_two (spin_usines two_by_two) (spin_entrepots two_by_two) =
     Inr ([100, 100], [100, 100], [[11, 12], [21, 22]])"
    by (simp add: read_two_by_two)
  have u: "No = Yes \<or> \<bar>py_sum [100, 100] - py_sum [100, 100]\<bar> \<le> 1 / 1000"
    by simp
  have b: "build_model (spin_usines two_by_two) (spin_entrepots two_by_two) [100, 100] [100, 100]
     [[11, 12], [21, 22]] =
     Inr (spec_model 2 2 [100, 100] [100, 100] [[11, 12], [21, 22]], spec_x 2 2)"
    by (simp add: build_two_by_two)
  have s: "status ((\<lambda>mdl. left_infeasible)
             (spec_model 2 2 [100, 100] [100, 100] [[11, 12], [21, 22]])) \<noteq> GRB_OPTIMAL"
    by (simp add: left_infeasible_def GRB_OPTIMAL_def)
  show ?thesis
    using non_optimal_status_is_reported_and_results_kept
      [where optimize = "\<lambda>mdl. left_infeasible", OF p r u b s] p r u b s
    by (simp add: left_infeasible_def)
qed

text \<open>
  C5, as it is stated, fails: after a run that ends with the status \<open>INFEASIBLE\<close> the form
  is not in the state it was in, since the status bar has changed.
\<close>

theorem non_optimal_changes_status_bar:
  "status_label two_by_two = Tableaux_crees 2 2 \<and>
   status_label (fst (solve_transport (\<lambda>mdl. left_infeasible) No two_by_two)) = Aucune_solution \<and>
   fst (solve_transport (\<lambda>mdl. left_infeasible) No two_by_two) \<noteq> two_by_two"
proof -
  have p: "0 < spin_usines two_by_two" "0 < spin_entrepots two_by_two"
    by simp_all
  have r: "read_data two_by_two (spin_usines two_by_two) (spin_entrepots two_by_two) =
     Inr ([100, 100], [100, 100], [[11, 12], [21, 22]])"
    by (simp add: read_two_by_two)
  have u: "No = Yes \<or> \<bar>py_sum [100, 100] - py_sum [100, 100]\<bar> \<le> 1 / 1000"
    by simp
  have s: "status ((\<lambda>mdl. left_infeasible)
             (spec_model (spin_usines two_by_two) (spin_entrepots two_by_two)
                [100, 100] [100, 100] [[11, 12], [21, 22]])) \<noteq> GRB_OPTIMAL"
    by (simp add: left_infeasible_def GRB_OPTIMAL_def)
  have before: "status_label two_by_two = Tableaux_crees 2 2"
    by (simp add: two_by_two_def create_tables_def initUI_def)
  have after: "fst (solve_transport (\<lambda>mdl. left_infeasible) No two_by_two) =
                 two_by_two\<lparr>status_label := Aucune_solution\<rparr>"
    by (rule solve_transport_not_optimal [where optimize = "\<lambda>mdl. left_infeasible", OF p r u s])
  have "status_label (fst (solve_transport (\<lambda>mdl. left_infeasible) No two_by_two)) = Aucune_solution"
    unfolding after by simp
  moreover from this before
  have "fst (solve_transport (\<lambda>mdl. left_infeasible) No two_by_two) \<noteq> two_by_two"
    by auto
  ultimately show ?thesis using before by simp
qed

subsection \<open>The model builder as a whole\<close>

text \<open>
  C2. For a supply list of length \<open>m\<close>, a demand list of length \<open>n\<close> and an \<open>m \<times> n\<close>
  cost matrix (with \<open>m\<close> and \<open>n\<close> at least \<open>1\<close>), the builder does not raise and returns
  the linear program of the specification. It is to be minimised. The dictionary \<open>x\<close> maps
  the pair \<open>(i, j)\<close> to a variable of its own, with lower bound \<open>0\<close> and objective
  coefficient \<open>cost[i][j]\<close>, and there are no other variables. An assignment satisfies the
  model exactly when every variable is non-negative, every source ships at most its supply
  and every destination receives at least its demand; the objective is the total cost.
\<close>

theorem builder_builds_the_transport_program:
  assumes "0 < m" "0 < n" "well_shaped m n supply demand costs"
  shows "build_model m n supply demand costs =
           Inr (spec_model m n supply demand costs, spec_x m n) \<and>
         modelSense (spec_model m n supply demand costs) = MINIMIZE \<and>
         length (vars (spec_model m n supply demand costs)) = m * n \<and>
         (\<forall>i<m. \<forall>j<n.
            spec_x m n (i, j) = Some (i * n + j) \<and> i * n + j < m * n \<and>
            lb (vars (spec_model m n supply demand costs) ! (i * n + j)) = 0 \<and>
            obj (vars (spec_model m n supply demand costs) ! (i * n + j)) = costs ! i ! j \<and>
            (\<forall>i' j'. j' < n \<and> i' * n + j' = i * n + j \<longrightarrow> i' = i \<and> j' = j)) \<and>
         (\<forall>a. feasible (spec_model m n supply demand costs) a \<longleftrightarrow>
            (\<forall>i<m. \<forall>j<n. 0 \<le> a (i * n + j)) \<and>
            (\<forall>i<m. (\<Sum>j<n. a (i * n + j)) \<le> supply ! i) \<and>
            (\<forall>j<n. demand ! j \<le> (\<Sum>i<m. a (i * n + j)))) \<and>
         (\<forall>a. objective (spec_model m n supply demand costs) a =
            (\<Sum>i<m. \<Sum>j<n. costs ! i ! j * a (i * n + j)))"
proof (intro conjI allI impI)
  show "build_model m n supply demand costs =
           Inr (spec_model m n supply demand costs, spec_x m n)"
    by (rule build_model_spec [OF assms])
  show "modelSense (spec_model m n supply demand costs) = MINIMIZE"
    by (simp add: spec_model_def)
  show "length (vars (spec_model m n supply demand costs)) = m * n"
    by simp
next
  fix i j assume ij: "i < m" "j < n"
  then show "spec_x m n (i, j) = Some (i * n + j)" by simp
  from ij show "i * n + j < m * n" by (rule index_pair)
  from ij show "lb (vars (spec_model m n supply demand costs) ! (i * n + j)) = 0"
    by (simp add: nth_vars_spec spec_var_def)
  from ij show "obj (vars (spec_model m n supply demand costs) ! (i * n + j)) = costs ! i ! j"
    by (simp add: nth_vars_spec spec_var_def)
  fix i' j' assume h: "j' < n \<and> i' * n + j' = i * n + j"
  then have "i' = i \<and> j' = j"
    using pair_of_index [of j' n j i' i] ij(2) by simp
  then show "i' = i" "j' = j" by simp_all
next
  fix a
  show "feasible (spec_model m n supply demand costs) a \<longleftrightarrow>
            (\<forall>i<m. \<forall>j<n. 0 \<le> a (i * n + j)) \<and>
            (\<forall>i<m. (\<Sum>j<n. a (i * n + j)) \<le> supply ! i) \<and>
            (\<forall>j<n. demand ! j \<le> (\<Sum>i<m. a (i * n + j)))"
    by (rule feasible_spec_model)
  show "objective (spec_model m n supply demand costs) a =
            (\<Sum>i<m. \<Sum>j<n. costs ! i ! j * a (i * n + j))"
    by (rule objective_spec_model)
qed

theorem builder_witness:
  "(0::nat) < 2 \<and> well_shaped 2 2 [100, 200] [100, 150] [[11, 12], [21, 22]] \<and>
   build_model 2 2 [100, 200] [100, 150] [[11, 12], [21, 22]] =
     Inr (spec_model 2 2 [100, 200] [100, 150] [[11, 12], [21, 22]], spec_x 2 2) \<and>
   modelSense (spec_model 2 2 [100, 200] [100, 150] [[11, 12], [21, 22]]) = MINIMIZE \<and>
   length (vars (spec_model 2 2 [100, 200] [100, 150] [[11, 12], [21, 22]])) = 4 \<and>
   spec_x 2 2 (1, 0) = Some 2 \<and>
   obj (vars (spec_model 2 2 [100, 200] [100, 150] [[11, 12], [21, 22]]) ! 2) = 21 \<and>
   objective (spec_model 2 2 [100, 200] [100, 150] [[11, 12], [21, 22]])
     (\<lambda>k. if k = 0 then 100 else if k = 3 then 150 else 0) = 4400"
proof -
  have p: "(0::nat) < 2" by simp
  have w: "well_shaped 2 2 [100, 200] [100, 150] [[11, 12], [21, 22]]"
    by (simp add: well_shaped_def)
  note t = builder_builds_the_transport_program [OF p p w]
  note build = t [THEN conjunct1]
  note sense = t [THEN conjunct2, THEN conjunct1]
  note count = t [THEN conjunct2, THEN conjunct2, THEN conjunct1]
  note pairs = t [THEN conjunct2, THEN conjunct2, THEN conjunct2, THEN conjunct1, rule_format, of 1 0]
  note total = t [THEN conjunct2, THEN conjunct2, THEN conjunct2, THEN conjunct2, THEN conjunct2,
      rule_format, of "\<lambda>k. if k = 0 then 100 else if k = 3 then 150 else 0"]
  have x: "spec_x 2 2 (1, 0) = Some 2"
    and o: "obj (vars (spec_model 2 2 [100, 200] [100, 150] [[11, 12], [21, 22]]) ! 2) = 21"
    using pairs by simp_all
  have c: "objective (spec_model 2 2 [100, 200] [100, 150] [[11, 12], [21, 22]])
     (\<lambda>k. if k = 0 then 100 else if k = 3 then 150 else 0) = 4400"
    unfolding total by (simp add: lessThan_Suc numeral_2_eq_2)
  from p w build sense count x o c show ?thesis by simp
qed

subsection \<open>The grand total\<close>

lemma two_decimals_close: "\<bar>two_decimals v - v\<bar> \<le> 1 / 200"
proof -
  define k where "k = \<lfloor>v * 100\<rfloor>"
  define r where "r = v * 100 - of_int k"
  have r: "0 \<le> r" "r < 1"
    unfolding r_def k_def by linarith+
  have v: "v = (of_int k + r) / 100"
    unfolding r_def by simp
  have "two_decimals v =
          of_int (if r < 1 / 2 then k else if 1 / 2 < r then k + 1 else if even k then k else k + 1) / 100"
    unfolding two_decimals_def Let_def k_def [symmetric] r_def [symmetric] ..
  then show ?thesis
    using r by (subst (2) v) (auto simp: abs_if field_simps)
qed

lemma text_at_spec_results:
  "text_at (spec_results m n costs a total_cost) (Suc m, Suc n) = Some (two_decimals total_cost)"
  by (simp add: text_at_def items_spec_results)

lemma spins_one_by_one_eighth [simp]:
  "spin_usines one_by_one_eighth = 1" "spin_entrepots one_by_one_eighth = 1"
  by (simp_all add: one_by_one_eighth_def)

lemma read_one_by_one_eighth: "read_data one_by_one_eighth 1 1 = Inr ([1], [1], [[1 / 8]])"
  by (simp add: read_data_def one_by_one_eighth_def one_by_one_def create_tables_def initUI_def
      item_def float_text_def)

text \<open>
  C7, as the code has it. The result formatter, fed the dictionary and the model of a solve,
  the solver's values, the cost matrix and the objective value, does not raise and makes the
  grand total item from the objective value itself, formatted to two decimals. What the item
  shows is therefore the objective value rounded to the nearest hundredth, which is within
  \<open>0.005\<close> of it. After an optimal solve that is the table the form shows. The row costs
  that the formatter computes add up to the objective of the model at the solver's values.
\<close>

theorem grand_total_is_the_objective_to_two_decimals:
  assumes "0 < spin_usines self" "0 < spin_entrepots self"
    and "read_data self (spin_usines self) (spin_entrepots self) = Inr (supply, demand, costs)"
    and "reply = Yes \<or> \<bar>py_sum supply - py_sum demand\<bar> \<le> 1 / 1000"
    and "build_model (spin_usines self) (spin_entrepots self) supply demand costs = Inr (mdl, x)"
  shows "fst (fill_results (spin_usines self) (spin_entrepots self) x out costs (objVal out) t0) = None \<and>
         items (snd (fill_results (spin_usines self) (spin_entrepots self) x out costs (objVal out) t0))
           (spin_usines self + 1, spin_entrepots self + 1) = Some (Num (objVal out) Grand_green) \<and>
         text_at (snd (fill_results (spin_usines self) (spin_entrepots self) x out costs (objVal out) t0))
           (spin_usines self + 1, spin_entrepots self + 1) = Some (two_decimals (objVal out)) \<and>
         \<bar>two_decimals (objVal out) - objVal out\<bar> \<le> 1 / 200 \<and>
         (\<Sum>i<spin_usines self.
             value_at (snd (fill_results (spin_usines self) (spin_entrepots self) x out costs
                              (objVal out) t0)) (i, spin_entrepots self + 1)) =
           objective mdl (X out) \<and>
         (status (optimize mdl) = GRB_OPTIMAL \<longrightarrow>
            table_results (fst (solve_transport optimize reply self)) =
              snd (fill_results (spin_usines self) (spin_entrepots self) x (optimize mdl) costs
                     (objVal (optimize mdl)) t0) \<and>
            text_at (table_results (fst (solve_transport optimize reply self)))
              (spin_usines self + 1, spin_entrepots self + 1) =
              Some (two_decimals (objVal (optimize mdl))))"
proof -
  let ?m = "spin_usines self" and ?n = "spin_entrepots self"
  note ws = read_data_well_shaped [OF assms(3)]
  have mdl: "mdl = spec_model ?m ?n supply demand costs" and x: "x = spec_x ?m ?n"
    using assms(5) build_model_spec [OF assms(1,2) ws] by simp_all
  have costs: "length costs = ?m" "list_all (\<lambda>row. length row = ?n) costs"
    using ws by (simp_all add: well_shaped_def)
  have fill: "fill_results ?m ?n x out' costs total_cost t0 =
                (None, spec_results ?m ?n costs (X out') total_cost)" for out' total_cost
    unfolding x by (rule fill_results_spec [OF costs])
  have rows: "(\<Sum>i<?m. value_at (spec_results ?m ?n costs (X out) (objVal out)) (i, ?n + 1)) =
                objective mdl (X out)"
    unfolding mdl objective_spec_model by (rule sum.cong) (simp_all add: value_at_spec_results)
  have shown: "table_results (fst (solve_transport optimize reply self)) =
                 spec_results ?m ?n costs (X (optimize mdl)) (objVal (optimize mdl))"
    if "status (optimize mdl) = GRB_OPTIMAL"
    using that unfolding mdl by (rule solve_transport_optimal(1) [OF assms(1-4)])
  show ?thesis
    unfolding fill using rows shown two_decimals_close [of "objVal out"]
    by (simp add: items_spec_results text_at_spec_results)
qed

theorem grand_total_witness:
  "0 < spin_usines two_by_two \<and> 0 < spin_entrepots two_by_two \<and>
   read_data two_by_two (spin_usines two_by_two) (spin_entrepots two_by_two) =
     Inr ([100, 100], [100, 100], [[11, 12], [21, 22]]) \<and>
   build_model (spin_usines two_by_two) (spin_entrepots two_by_two) [100, 100] [100, 100]
     [[11, 12], [21, 22]] =
     Inr (spec_model 2 2 [100, 100] [100, 100] [[11, 12], [21, 22]], spec_x 2 2) \<and>
   status left_optimal = GRB_OPTIMAL \<and>
   text_at (table_results (fst (solve_transport (\<lambda>mdl. left_optimal) Yes two_by_two))) (3, 3) =
     Some 3300 \<and>
   objective (spec_model 2 2 [100, 100] [100, 100] [[11, 12], [21, 22]]) (X left_optimal) = 3300"
proof -
  have p: "0 < spin_usines two_by_two" "0 < spin_entrepots two_by_two"
    by simp_all
  have r: "read_data two_by_two (spin_usines two_by_two) (spin_entrepots two_by_two) =
     Inr ([100, 100], [100, 100], [[11, 12], [21, 22]])"
    by (simp add: read_two_by_two)
  have u: "Yes = Yes \<or> \<bar>py_sum [100, 100] - py_sum [100, 100]\<bar> \<le> 1 / 1000"
    by simp
  have b: "build_model (spin_usines two_by_two) (spin_entrepots two_by_two) [100, 100] [100, 100]
     [[11, 12], [21, 22]] =
     Inr (spec_model 2 2 [100, 100] [100, 100] [[11, 12], [21, 22]], spec_x 2 2)"
    by (simp add: build_two_by_two)
  have s: "status left_optimal = GRB_OPTIMAL"
    by (simp add: left_optimal_def GRB_OPTIMAL_def)
  have o: "objective (spec_model 2 2 [100, 100] [100, 100] [[11, 12], [21, 22]]) (X left_optimal) = 3300"
    by (simp add: objective_spec_model left_optimal_def lessThan_Suc numeral_2_eq_2)
  have d: "two_decimals 3300 = 3300"
    by (simp add: two_decimals_def)
  note t = grand_total_is_the_objective_to_two_decimals
      [where optimize = "\<lambda>mdl. left_optimal" and out = left_optimal, OF p r u b]
  have "text_at (table_results (fst (solve_transport (\<lambda>mdl. left_optimal) Yes two_by_two)))
          (spin_usines two_by_two + 1, spin_entrepots two_by_two + 1) =
          Some (two_decimals (objVal left_optimal))"
    using t s by simp
  then have "text_at (table_results (fst (solve_transport (\<lambda>mdl. left_optimal) Yes two_by_two)))
          (3, 3) = Some 3300"
    by (simp add: left_optimal_def d)
  with p r b s o show ?thesis by simp
qed

text \<open>
  C7, as it is stated, fails. With the supply \<open>1\<close>, the demand \<open>1\<close> and the cost
  \<open>0.125\<close> the optimum ships one unit and the objective value is \<open>0.125\<close>; the grand
  total item shows \<open>0.12\<close>, which is \<open>0.005\<close> away and not within \<open>10\<^sup>-\<^sup>6\<close>.
\<close>

theorem grand_total_differs_by_rounding:
  "read_data one_by_one_eighth (spin_usines one_by_one_eighth) (spin_entrepots one_by_one_eighth) =
     Inr ([1], [1], [[1 / 8]]) \<and>
   status left_optimal_eighth = GRB_OPTIMAL \<and>
   feasible (spec_model 1 1 [1] [1] [[1 / 8]]) (X left_optimal_eighth) \<and>
   objVal left_optimal_eighth = objective (spec_model 1 1 [1] [1] [[1 / 8]]) (X left_optimal_eighth) \<and>
   objVal left_optimal_eighth = 1 / 8 \<and>
   text_at (table_results (fst (solve_transport (\<lambda>mdl. left_optimal_eighth) Yes one_by_one_eighth)))
     (2, 2) = Some (12 / 100) \<and>
   \<not> \<bar>12 / 100 - 1 / 8\<bar> \<le> (1 / 10 ^ 6 :: real)"
proof -
  have p: "0 < spin_usines one_by_one_eighth" "0 < spin_entrepots one_by_one_eighth"
    by simp_all
  have r: "read_data one_by_one_eighth (spin_usines one_by_one_eighth)
     (spin_entrepots one_by_one_eighth) = Inr ([1], [1], [[1 / 8]])"
    using read_one_by_one_eighth by simp
  have u: "Yes = Yes \<or> \<bar>py_sum [1] - py_sum [1]\<bar> \<le> 1 / 1000"
    by simp
  have s: "status ((\<lambda>mdl. left_optimal_eighth)
             (spec_model (spin_usines one_by_one_eighth) (spin_entrepots one_by_one_eighth)
                [1] [1] [[1 / 8]])) = GRB_OPTIMAL"
    by (simp add: left_optimal_eighth_def GRB_OPTIMAL_def)
  have f: "feasible (spec_model 1 1 [1] [1] [[1 / 8]]) (X left_optimal_eighth)"
    by (simp add: feasible_one_by_one left_optimal_eighth_def)
  have o: "objVal left_optimal_eighth =
             objective (spec_model 1 1 [1] [1] [[1 / 8]]) (X left_optimal_eighth)"
    by (simp add: objective_one_by_one left_optimal_eighth_def)
  have d: "two_decimals (1 / 8) = 12 / 100"
    by (simp add: two_decimals_def)
  have "table_results (fst (solve_transport (\<lambda>mdl. left_optimal_eighth) Yes one_by_one_eighth)) =
          spec_results 1 1 [[1 / 8]] (X left_optimal_eighth) (objVal left_optimal_eighth)"
    using solve_transport_optimal(1) [where optimize = "\<lambda>mdl. left_optimal_eighth", OF p r u s]
    by simp
  then have t: "text_at (table_results
                  (fst (solve_transport (\<lambda>mdl. left_optimal_eighth) Yes one_by_one_eighth))) (2, 2) =
                Some (12 / 100)"
    using text_at_spec_results [of 1 1 "[[1 / 8]]" "X left_optimal_eighth" "objVal left_optimal_eighth"]
    by (simp add: numeral_2_eq_2 left_optimal_eighth_def d)
  have g: "status left_optimal_eighth = GRB_OPTIMAL" "objVal left_optimal_eighth = 1 / 8"
    by (simp_all add: left_optimal_eighth_def GRB_OPTIMAL_def)
  from r g f o t show ?thesis by simp
qed

subsection \<open>Row and column totals\<close>



subsection \<open>A cost matrix of zeros\<close>

lemma objective_zero_costs:
  assumes "length costs = m" "list_all (\<lambda>row. length row = n) costs"
    and "list_all (list_all (\<lambda>c. c = 0)) costs"
  shows "objective (spec_model m n supply demand costs) a = 0"
proof -
  have "costs ! i ! j = 0" if "i < m" "j < n" for i j
    using assms that by (simp add: list_all_length)
  then show ?thesis
    by (simp add: objective_spec_model)
qed

text \<open>
  C9. With a cost matrix of zeros the objective of the model is \<open>0\<close> at every assignment.
  So on a balanced input, when the solver ends with the status \<open>OPTIMAL\<close> (as it does on a
  feasible instance) and its objective value is the objective at its own solution, the
  objective value is \<open>0\<close>, and \<open>0\<close> is what the status bar and the grand total cell report.
\<close>

theorem zero_costs_give_objective_zero:
  assumes "0 < spin_usines self" "0 < spin_entrepots self"
    and "read_data self (spin_usines self) (spin_entrepots self) = Inr (supply, demand, costs)"
    and "py_sum supply = py_sum demand"
    and "list_all (list_all (\<lambda>c. c = 0)) costs"
    and "build_model (spin_usines self) (spin_entrepots self) supply demand costs = Inr (mdl, x)"
    and "status (optimize mdl) = GRB_OPTIMAL"
    and "objVal (optimize mdl) = objective mdl (X (optimize mdl))"
  shows "objective mdl a = 0 \<and> objVal (optimize mdl) = 0 \<and>
         status_label (fst (solve_transport optimize reply self)) = Solution_optimale 0 \<and>
         value_at (table_results (fst (solve_transport optimize reply self)))
           (spin_usines self + 1, spin_entrepots self + 1) = 0"
proof -
  let ?m = "spin_usines self" and ?n = "spin_entrepots self"
  note ws = read_data_well_shaped [OF assms(3)]
  have mdl: "mdl = spec_model ?m ?n supply demand costs"
    using assms(6) build_model_spec [OF assms(1,2) ws] by simp
  have costs: "length costs = ?m" "list_all (\<lambda>row. length row = ?n) costs"
    using ws by (simp_all add: well_shaped_def)
  have zero: "objective mdl a' = 0" for a'
    unfolding mdl by (rule objective_zero_costs [OF costs assms(5)])
  with assms(8) have val: "objVal (optimize mdl) = 0" by simp
  have u: "reply = Yes \<or> \<bar>py_sum supply - py_sum demand\<bar> \<le> 1 / 1000"
    using assms(4) by simp
  have st: "status (optimize (spec_model ?m ?n supply demand costs)) = GRB_OPTIMAL"
    using assms(7) unfolding mdl .
  have "status_label (fst (solve_transport optimize reply self)) =
          Solution_optimale (objVal (optimize mdl))"
    unfolding mdl by (rule solve_transport_optimal(2) [where optimize = optimize, OF assms(1-3) u st])
  moreover have "table_results (fst (solve_transport optimize reply self)) =
          spec_results ?m ?n costs (X (optimize mdl)) (objVal (optimize mdl))"
    unfolding mdl by (rule solve_transport_optimal(1) [where optimize = optimize, OF assms(1-3) u st])
  ultimately show ?thesis
    using zero val by (simp add: value_at_spec_results)
qed

theorem zero_costs_witness:
  "0 < spin_usines two_by_two_free \<and> 0 < spin_entrepots two_by_two_free \<and>
   read_data two_by_two_free (spin_usines two_by_two_free) (spin_entrepots two_by_two_free) =
     Inr ([100, 100], [100, 100], [[0, 0], [0, 0]]) \<and>
   py_sum [100, 100] = py_sum [100, 100] \<and>
   list_all (list_all (\<lambda>c. c = 0)) [[0, 0], [0, 0 :: real]] \<and>
   build_model (spin_usines two_by_two_free) (spin_entrepots two_by_two_free) [100, 100] [100, 100]
     [[0, 0], [0, 0]] =
     Inr (spec_model 2 2 [100, 100] [100, 100] [[0, 0], [0, 0]], spec_x 2 2) \<and>
   status left_optimal_free = GRB_OPTIMAL \<and>
   objVal left_optimal_free =
     objective (spec_model 2 2 [100, 100] [100, 100] [[0, 0], [0, 0]]) (X left_optimal_free) \<and>
   status_label (fst (solve_transport (\<lambda>mdl. left_optimal_free) No two_by_two_free)) =
     Solution_optimale 0"
proof -
  have p: "0 < spin_usines two_by_two_free" "0 < spin_entrepots two_by_two_free"
    by simp_all
  have r: "read_data two_by_two_free (spin_usines two_by_two_free) (spin_entrepots two_by_two_free) =
     Inr ([100, 100], [100, 100], [[0, 0], [0, 0]])"
    by (simp add: read_two_by_two_free)
  have z: "list_all (list_all (\<lambda>c. c = 0)) [[0, 0], [0, 0 :: real]]"
    by simp
  have b: "build_model (spin_usines two_by_two_free) (spin_entrepots two_by_two_free)
     [100, 100] [100, 100] [[0, 0], [0, 0]] =
     Inr (spec_model 2 2 [100, 100] [100, 100] [[0, 0], [0, 0]], spec_x 2 2)"
    by (simp add: build_model_spec well_shaped_def)
  have s: "status ((\<lambda>mdl. left_optimal_free) (spec_model 2 2 [100, 100] [100, 100] [[0, 0], [0, 0]])) =
             GRB_OPTIMAL"
    by (simp add: left_optimal_free_def left_optimal_def GRB_OPTIMAL_def)
  have o: "objVal ((\<lambda>mdl. left_optimal_free) (spec_model 2 2 [100, 100] [100, 100] [[0, 0], [0, 0]])) =
     objective (spec_model 2 2 [100, 100] [100, 100] [[0, 0], [0, 0]])
       (X ((\<lambda>mdl. left_optimal_free) (spec_model 2 2 [100, 100] [100, 100] [[0, 0], [0, 0]])))"
    by (simp add: objective_zero_costs left_optimal_free_def left_optimal_def)
  note t = zero_costs_give_objective_zero
      [where optimize = "\<lambda>mdl. left_optimal_free" and reply = No, OF p r refl z b s o]
  from t p r z b s o show ?thesis by simp
qed

subsection \<open>Feasibility\<close>

lemma transport_feasible:
  assumes len: "length (supply :: real list) = m" "length (demand :: real list) = n"
    and s0: "\<forall>i<m. 0 \<le> supply ! i" and d0: "\<forall>j<n. 0 \<le> demand ! j"
    and le: "sum_list demand \<le> sum_list supply"
  shows "\<exists>a. (\<forall>i<m. \<forall>j<n. 0 \<le> a (i * n + j)) \<and>
             (\<forall>i<m. (\<Sum>j<n. a (i * n + j)) \<le> supply ! i) \<and>
             (\<forall>j<n. demand ! j \<le> (\<Sum>i<m. a (i * n + j)))"
proof -
  define S where "S = (\<Sum>i<m. supply ! i)"
  define D where "D = (\<Sum>j<n. demand ! j)"
  have SD: "D \<le> S" using le len by (simp add: S_def D_def sum_list_nth)
  have D0: "0 \<le> D" unfolding D_def using d0 by (intro sum_nonneg) simp
  show ?thesis
  proof (cases "S = 0")
    case True
    with SD D0 have "D = 0" by simp
    then have "\<forall>j\<in>{..<n}. demand ! j = 0"
      unfolding D_def using d0 sum_nonneg_eq_0_iff [of "{..<n}" "\<lambda>j. demand ! j"] by simp
    then have "\<forall>j<n. demand ! j \<le> 0" by simp
    with s0 show ?thesis
      by (intro exI [of _ "\<lambda>k. 0"]) simp
  next
    case False
    have "0 \<le> S" unfolding S_def using s0 by (intro sum_nonneg) simp
    with False have S: "0 < S" by simp
    define a where "a = (\<lambda>k. supply ! (k div n) * demand ! (k mod n) / S)"
    have a: "a (i * n + j) = supply ! i * demand ! j / S" if "j < n" for i j
      using that by (simp add: a_def)
    have nonneg: "\<forall>i<m. \<forall>j<n. 0 \<le> a (i * n + j)"
      using s0 d0 S by (simp add: a)
    have rows: "\<forall>i<m. (\<Sum>j<n. a (i * n + j)) \<le> supply ! i"
    proof (intro allI impI)
      fix i assume i: "i < m"
      have "(\<Sum>j<n. a (i * n + j)) = (\<Sum>j<n. supply ! i * demand ! j / S)"
        by (rule sum.cong) (simp_all add: a)
      also have "\<dots> = supply ! i * (D / S)"
        by (simp add: D_def sum_distrib_left sum_divide_distrib)
      also have "\<dots> \<le> supply ! i * 1"
        using s0 i SD S by (intro mult_left_mono) simp_all
      finally show "(\<Sum>j<n. a (i * n + j)) \<le> supply ! i" by simp
    qed
    have cols: "\<forall>j<n. demand ! j \<le> (\<Sum>i<m. a (i * n + j))"
    proof (intro allI impI)
      fix j assume j: "j < n"
      have "(\<Sum>i<m. a (i * n + j)) = (\<Sum>i<m. supply ! i * demand ! j / S)"
        using j by (simp add: a)
      also have "\<dots> = S * demand ! j / S"
        by (simp add: S_def sum_distrib_right sum_divide_distrib)
      also have "\<dots> = demand ! j" using S by simp
      finally show "demand ! j \<le> (\<Sum>i<m. a (i * n + j))" by simp
    qed
    from nonneg rows cols show ?thesis
      by (intro exI [of _ a] conjI)
  qed
qed

text \<open>
  C10. When no supply and no demand is negative and the total demand is at most the total
  supply, the model that the builder returns has an assignment that satisfies it: ship from
  every source to every destination in proportion to supply and demand. Put the other way
  round: if nothing satisfies the model, the total demand exceeds the total supply.
\<close>

theorem enough_supply_makes_the_model_feasible:
  assumes "0 < m" "0 < n" "well_shaped m n supply demand costs"
    and "list_all (\<lambda>v. 0 \<le> v) supply" "list_all (\<lambda>v. 0 \<le> v) demand"
    and "build_model m n supply demand costs = Inr (mdl, x)"
  shows "(py_sum demand \<le> py_sum supply \<longrightarrow> (\<exists>a. feasible mdl a)) \<and>
         ((\<forall>a. \<not> feasible mdl a) \<longrightarrow> py_sum supply < py_sum demand)"
proof -
  have mdl: "mdl = spec_model m n supply demand costs"
    using assms(6) build_model_spec [OF assms(1-3)] by simp
  have len: "length supply = m" "length demand = n"
    using assms(3) by (simp_all add: well_shaped_def)
  have s0: "\<forall>i<m. 0 \<le> supply ! i" and d0: "\<forall>j<n. 0 \<le> demand ! j"
    using assms(4,5) len by (simp_all add: list_all_length)
  have "\<exists>a. feasible mdl a" if "py_sum demand \<le> py_sum supply"
  proof -
    from that have "sum_list demand \<le> sum_list supply"
      by (simp add: py_sum_sum_list)
    from transport_feasible [OF len s0 d0 this]
    show ?thesis unfolding mdl feasible_spec_model .
  qed
  then have one: "py_sum demand \<le> py_sum supply \<longrightarrow> (\<exists>a. feasible mdl a)" by simp
  then have "(\<forall>a. \<not> feasible mdl a) \<longrightarrow> py_sum supply < py_sum demand"
    by (cases "py_sum demand \<le> py_sum supply") simp_all
  with one show ?thesis by simp
qed

theorem enough_supply_witness:
  "(0::nat) < 2 \<and> well_shaped 2 2 [100, 200] [100, 150] [[11, 12], [21, 22]] \<and>
   list_all (\<lambda>v. 0 \<le> v) [100, 200 :: real] \<and> list_all (\<lambda>v. 0 \<le> v) [100, 150 :: real] \<and>
   build_model 2 2 [100, 200] [100, 150] [[11, 12], [21, 22]] =
     Inr (spec_model 2 2 [100, 200] [100, 150] [[11, 12], [21, 22]], spec_x 2 2) \<and>
   py_sum [100, 150] \<le> py_sum [100, 200] \<and>
   (\<exists>a. feasible (spec_model 2 2 [100, 200] [100, 150] [[11, 12], [21, 22]]) a)"
proof -
  have p: "(0::nat) < 2" by simp
  have w: "well_shaped 2 2 [100, 200] [100, 150] [[11, 12], [21, 22]]"
    by (simp add: well_shaped_def)
  have s: "list_all (\<lambda>v. 0 \<le> v) [100, 200 :: real]" and d: "list_all (\<lambda>v. 0 \<le> v) [100, 150 :: real]"
    by simp_all
  have b: "build_model 2 2 [100, 200] [100, 150] [[11, 12], [21, 22]] =
     Inr (spec_model 2 2 [100, 200] [100, 150] [[11, 12], [21, 22]], spec_x 2 2)"
    by (rule build_model_spec [OF p p w])
  have l: "py_sum [100, 150] \<le> py_sum [100, 200]"
    by (simp add: py_sum_def)
  from enough_supply_makes_the_model_feasible [OF p p w s d b, THEN conjunct1, rule_format, OF l]
  have "\<exists>a. feasible (spec_model 2 2 [100, 200] [100, 150] [[11, 12], [21, 22]]) a" .
  with p w s d b l show ?thesis by simp
qed

subsection \<open>One source and one destination\<close>

text \<open>
  C4, as the code has it. Nothing in the handler balances the two numbers, so the property
  holds of the inputs that are balanced as they are typed: one source and one destination,
  with supply equal to demand and not negative. The model
  has the single variable \<open>x[0,0]\<close>; an assignment satisfies it exactly when that variable is
  \<open>min(supply, demand)\<close>, and the objective is then \<open>cost * supply\<close>. So when the solver ends
  with the status \<open>OPTIMAL\<close>, its values satisfy the model and its objective value is the
  objective at them, the flow shown is \<open>min(supply, demand)\<close> and the total cost shown, in
  the grand total cell and in the status bar, is \<open>cost * supply\<close>.
\<close>

theorem one_by_one_flow_is_the_supply:
  assumes "spin_usines self = 1" "spin_entrepots self = 1"
    and "read_data self 1 1 = Inr ([s], [d], [[c]])"
    and "0 \<le> s" "s = d"
    and "build_model 1 1 [s] [d] [[c]] = Inr (mdl, x)"
  shows "x (0, 0) = Some 0 \<and> length (vars mdl) = 1 \<and>
         (\<forall>a. feasible mdl a \<longleftrightarrow> a 0 = min s d) \<and>
         (\<forall>a. feasible mdl a \<longrightarrow> objective mdl a = c * s) \<and>
         (status (optimize mdl) = GRB_OPTIMAL \<and> feasible mdl (X (optimize mdl)) \<and>
          objVal (optimize mdl) = objective mdl (X (optimize mdl)) \<longrightarrow>
            value_at (table_results (fst (solve_transport optimize reply self))) (0, 0) = min s d \<and>
            value_at (table_results (fst (solve_transport optimize reply self))) (2, 2) = c * s \<and>
            status_label (fst (solve_transport optimize reply self)) = Solution_optimale (c * s))"
proof -
  have ws: "well_shaped 1 1 [s] [d] [[c]]"
    by (simp add: well_shaped_def)
  have mdl: "mdl = spec_model 1 1 [s] [d] [[c]]" and x: "x = spec_x 1 1"
    using assms(6) build_model_spec [OF _ _ ws] by simp_all
  have feas: "feasible mdl a \<longleftrightarrow> a 0 = min s d" for a
    using assms(4,5) by (auto simp: mdl feasible_one_by_one)
  have cost: "objective mdl a = c * s" if "feasible mdl a" for a
    using that assms(5) unfolding feas by (simp add: mdl objective_one_by_one)
  have p: "0 < spin_usines self" "0 < spin_entrepots self"
    using assms(1,2) by simp_all
  have r: "read_data self (spin_usines self) (spin_entrepots self) = Inr ([s], [d], [[c]])"
    using assms(1-3) by simp
  have u: "reply = Yes \<or> \<bar>py_sum [s] - py_sum [d]\<bar> \<le> 1 / 1000"
    using assms(5) by simp
  have shown:
    "value_at (table_results (fst (solve_transport optimize reply self))) (0, 0) = min s d \<and>
     value_at (table_results (fst (solve_transport optimize reply self))) (2, 2) = c * s \<and>
     status_label (fst (solve_transport optimize reply self)) = Solution_optimale (c * s)"
    if st: "status (optimize mdl) = GRB_OPTIMAL" and f: "feasible mdl (X (optimize mdl))"
      and o: "objVal (optimize mdl) = objective mdl (X (optimize mdl))"
  proof -
    have st': "status (optimize (spec_model (spin_usines self) (spin_entrepots self) [s] [d] [[c]])) =
                 GRB_OPTIMAL"
      using st by (simp add: mdl assms(1,2))
    from f have flow: "X (optimize mdl) 0 = min s d" by (simp add: feas)
    from o cost [OF f] have val: "objVal (optimize mdl) = c * s" by simp
    have t: "table_results (fst (solve_transport optimize reply self)) =
               spec_results 1 1 [[c]] (X (optimize mdl)) (objVal (optimize mdl))"
      using solve_transport_optimal(1) [where optimize = optimize, OF p r u st']
      by (simp add: mdl assms(1,2))
    have l: "status_label (fst (solve_transport optimize reply self)) =
               Solution_optimale (objVal (optimize mdl))"
      using solve_transport_optimal(2) [where optimize = optimize, OF p r u st']
      by (simp add: mdl assms(1,2))
    have "value_at (spec_results 1 1 [[c]] (X (optimize mdl)) (objVal (optimize mdl))) (0, 0) =
            X (optimize mdl) (0 * 1 + 0)"
      by (rule value_at_spec_results(1)) simp_all
    moreover have "value_at (spec_results 1 1 [[c]] (X (optimize mdl)) (objVal (optimize mdl)))
                     (Suc 1, Suc 1) = objVal (optimize mdl)"
      by (rule value_at_spec_results(5))
    ultimately show ?thesis
      unfolding t l using flow val by (simp add: numeral_2_eq_2)
  qed
  have "x (0, 0) = Some 0" unfolding x by simp
  moreover have "length (vars mdl) = 1" unfolding mdl by simp
  ultimately show ?thesis
    using feas cost shown by blast
qed

theorem one_by_one_witness:
  "spin_usines one_by_one = 1 \<and> spin_entrepots one_by_one = 1 \<and>
   read_data one_by_one 1 1 = Inr ([100], [100], [[11]]) \<and> (0::real) \<le> 100 \<and>
   build_model 1 1 [100] [100] [[11]] = Inr (spec_model 1 1 [100] [100] [[11]], spec_x 1 1) \<and>
   status left_optimal_one = GRB_OPTIMAL \<and>
   feasible (spec_model 1 1 [100] [100] [[11]]) (X left_optimal_one) \<and>
   objVal left_optimal_one = objective (spec_model 1 1 [100] [100] [[11]]) (X left_optimal_one) \<and>
   value_at (table_results (fst (solve_transport (\<lambda>mdl. left_optimal_one) Yes one_by_one))) (0, 0) = 100 \<and>
   value_at (table_results (fst (solve_transport (\<lambda>mdl. left_optimal_one) Yes one_by_one))) (2, 2) = 1100 \<and>
   status_label (fst (solve_transport (\<lambda>mdl. left_optimal_one) Yes one_by_one)) = Solution_optimale 1100"
proof -
  have p: "spin_usines one_by_one = 1" "spin_entrepots one_by_one = 1"
    by simp_all
  have r: "read_data one_by_one 1 1 = Inr ([100], [100], [[11]])"
    by (rule read_one_by_one)
  have n: "(0::real) \<le> 100" by simp
  have b: "build_model 1 1 [100] [100] [[11]] = Inr (spec_model 1 1 [100] [100] [[11]], spec_x 1 1)"
    by (simp add: build_model_spec well_shaped_def)
  have s: "status left_optimal_one = GRB_OPTIMAL"
    by (simp add: left_optimal_one_def GRB_OPTIMAL_def)
  have f: "feasible (spec_model 1 1 [100] [100] [[11]]) (X left_optimal_one)"
    by (simp add: feasible_one_by_one left_optimal_one_def)
  have o: "objVal left_optimal_one = objective (spec_model 1 1 [100] [100] [[11]]) (X left_optimal_one)"
    by (simp add: objective_one_by_one left_optimal_one_def)
  note t = one_by_one_flow_is_the_supply
      [where optimize = "\<lambda>mdl. left_optimal_one" and reply = Yes, OF p r n refl b,
        THEN conjunct2, THEN conjunct2, THEN conjunct2, THEN conjunct2, rule_format]
  have "status left_optimal_one = GRB_OPTIMAL \<and>
        feasible (spec_model 1 1 [100] [100] [[11]]) (X left_optimal_one) \<and>
        objVal left_optimal_one = objective (spec_model 1 1 [100] [100] [[11]]) (X left_optimal_one)"
    using s f o by simp
  from t [OF this] p r n b s f o show ?thesis by simp
qed

text \<open>
  C4, as it is stated, fails on an input that is not balanced as typed. With the supply
  \<open>300\<close>, the demand \<open>250\<close>, the cost \<open>11\<close> and the reply \<open>Yes\<close>, the solver receives
  the model \<open>x \<le> 300\<close>, \<open>x \<ge> 250\<close>. The flow \<open>300\<close> satisfies it and is not
  \<open>min(300, 250)\<close>, so the feasible flow is not the only one; and at the optimum, the
  flow \<open>250\<close>, the total cost that is shown is \<open>2750\<close> and not \<open>11 * 300\<close>.
\<close>

theorem one_by_one_unbalanced_flow_is_not_unique:
  "read_data one_by_one_unbalanced (spin_usines one_by_one_unbalanced)
     (spin_entrepots one_by_one_unbalanced) = Inr ([300], [250], [[11]]) \<and>
   build_model 1 1 [300] [250] [[11]] = Inr (spec_model 1 1 [300] [250] [[11]], spec_x 1 1) \<and>
   solver_calls (snd (solve_transport (\<lambda>mdl. left_optimal_250) Yes one_by_one_unbalanced)) =
     [spec_model 1 1 [300] [250] [[11]]] \<and>
   feasible (spec_model 1 1 [300] [250] [[11]]) (\<lambda>k. 300) \<and>
   (300 :: real) \<noteq> min 300 250 \<and>
   status left_optimal_250 = GRB_OPTIMAL \<and>
   feasible (spec_model 1 1 [300] [250] [[11]]) (X left_optimal_250) \<and>
   objVal left_optimal_250 = objective (spec_model 1 1 [300] [250] [[11]]) (X left_optimal_250) \<and>
   status_label (fst (solve_transport (\<lambda>mdl. left_optimal_250) Yes one_by_one_unbalanced)) =
     Solution_optimale 2750 \<and>
   (2750 :: real) \<noteq> 11 * 300"
proof -
  have p: "0 < spin_usines one_by_one_unbalanced" "0 < spin_entrepots one_by_one_unbalanced"
    by simp_all
  have r: "read_data one_by_one_unbalanced (spin_usines one_by_one_unbalanced)
     (spin_entrepots one_by_one_unbalanced) = Inr ([300], [250], [[11]])"
    using read_one_by_one_unbalanced by simp
  have u: "Yes = Yes \<or> \<bar>py_sum [300] - py_sum [250]\<bar> \<le> 1 / 1000"
    by simp
  have b: "build_model 1 1 [300] [250] [[11]] = Inr (spec_model 1 1 [300] [250] [[11]], spec_x 1 1)"
    by (simp add: build_model_spec well_shaped_def)
  have s: "status ((\<lambda>mdl. left_optimal_250)
             (spec_model (spin_usines one_by_one_unbalanced) (spin_entrepots one_by_one_unbalanced)
                [300] [250] [[11]])) = GRB_OPTIMAL"
    by (simp add: left_optimal_250_def GRB_OPTIMAL_def)
  have c: "solver_calls (snd (solve_transport (\<lambda>mdl. left_optimal_250) Yes one_by_one_unbalanced)) =
     [spec_model 1 1 [300] [250] [[11]]]"
    using solve_transport_calls [where optimize = "\<lambda>mdl. left_optimal_250", OF p r u] by simp
  have f1: "feasible (spec_model 1 1 [300] [250] [[11]]) (\<lambda>k. 300)"
    by (simp add: feasible_one_by_one)
  have f2: "feasible (spec_model 1 1 [300] [250] [[11]]) (X left_optimal_250)"
    by (simp add: feasible_one_by_one left_optimal_250_def)
  have o: "objVal left_optimal_250 =
             objective (spec_model 1 1 [300] [250] [[11]]) (X left_optimal_250)"
    by (simp add: objective_one_by_one left_optimal_250_def)
  have l: "status_label (fst (solve_transport (\<lambda>mdl. left_optimal_250) Yes one_by_one_unbalanced)) =
     Solution_optimale 2750"
    using solve_transport_optimal(2) [where optimize = "\<lambda>mdl. left_optimal_250", OF p r u s]
    by (simp add: left_optimal_250_def)
  have g: "status left_optimal_250 = GRB_OPTIMAL"
    by (simp add: left_optimal_250_def GRB_OPTIMAL_def)
  from r b c f1 g f2 o l show ?thesis by simp
qed

end
